theory Spec2Isabelle
  imports Main "HOL-Library.Sublist"
begin

chapter \<open>The model\<close>

section \<open>Notifier (scheduler.ts)\<close>

text \<open>
  The Notifier keeps a set of resume callbacks and one boolean. Each call of \<open>wait()\<close>
  that has to suspend allocates a fresh callback; a callback is identified here by a
  natural number (the waiter). A JavaScript \<open>Set\<close> iterates in insertion order and
  ignores a second \<open>add\<close> of the same element, so \<open>waitQueue\<close> is a list that is
  extended only by elements it does not hold yet.
\<close>

record notifier =
  waitQueue :: "nat list"
  hasPendingSignal :: bool

definition newNotifier :: notifier where
  "newNotifier = \<lparr>waitQueue = [], hasPendingSignal = False\<rparr>"

text \<open>
  \<open>wait w n\<close>: the first component tells whether the returned promise is already
  resolved (\<open>True\<close>) or the waiter \<open>w\<close> was registered and stays suspended (\<open>False\<close>).
\<close>

definition wait :: "nat \<Rightarrow> notifier \<Rightarrow> bool \<times> notifier" where
  "wait w n =
     (if hasPendingSignal n then (True, n\<lparr>hasPendingSignal := False\<rparr>)
      else (False, n\<lparr>waitQueue :=
              (if w \<in> set (waitQueue n) then waitQueue n else waitQueue n @ [w])\<rparr>))"

text \<open>
  \<open>signal n\<close>: the first component lists the waiters that were resumed, in the order of
  the loop over the set.
\<close>

definition signal :: "notifier \<Rightarrow> nat list \<times> notifier" where
  "signal n =
     (let n1 = (if length (waitQueue n) = 0 then n\<lparr>hasPendingSignal := True\<rparr> else n)
      in (waitQueue n1, n1\<lparr>waitQueue := []\<rparr>))"

text \<open>Convenience projections: the notifier after a call, and a run of \<open>k\<close> signals.\<close>

definition afterSignal :: "notifier \<Rightarrow> notifier" where
  "afterSignal n = snd (signal n)"

definition afterWait :: "nat \<Rightarrow> notifier \<Rightarrow> notifier" where
  "afterWait w n = snd (wait w n)"

fun signals :: "nat \<Rightarrow> notifier \<Rightarrow> notifier" where
  "signals 0 n = n"
| "signals (Suc k) n = signals k (afterSignal n)"

section \<open>Scheduler (scheduler.ts)\<close>

datatype lane = Domain | Ui

datatype prio = High | Medium | Low

definition LANES :: "lane list" where
  "LANES = [Domain, Ui]"

definition PRIOS :: "prio list" where
  "PRIOS = [High, Medium, Low]"

text \<open>
  A task is its identifier and its body. The body is opaque to the scheduler; all the
  scheduler observes of it is whether the awaited \<open>run()\<close> resolves or throws, which is
  the field \<open>runOk\<close>. Whatever else the body does to the scheduler (enqueue, stop) is an
  action of the environment in the transition system below.
\<close>

record task =
  tid :: string
  runOk :: bool

datatype status = Running | Idle | Stopped

datatype logEvent = LogStart | LogEnd | LogError

text \<open>A diagnostic record handed to the log sink (time stamps and durations left out).\<close>

record logEntry =
  taskId :: string
  priority :: prio
  laneOf :: lane
  event :: logEvent

type_synonym queues = "lane \<Rightarrow> prio \<Rightarrow> task list"

text \<open>
  Where an activation of \<open>start()\<close> is suspended. It gives up control only at an
  \<open>await\<close>: inside \<open>tick\<close> while the task runs (\<open>InTask\<close>), on the promise of
  \<open>tick\<close> with the value it resolves to (\<open>AfterTick\<close>), and on the promise of
  \<open>wait()\<close>, either still pending (\<open>Waiting\<close>) or resolved and not yet continued
  (\<open>Woken\<close>). \<open>Exited\<close> is an activation whose loop has ended.
\<close>

datatype pc =
    InTask task lane prio
  | AfterTick bool
  | Waiting
  | Woken
  | Exited

record scheduler =
  status :: status
  queue :: queues
  notifier :: notifier
  loops :: "pc list"
  slog :: "logEntry list"

definition emptyQueue :: queues where
  "emptyQueue = (\<lambda>l p. [])"

definition newScheduler :: scheduler where
  "newScheduler =
     \<lparr>status = Idle, queue = emptyQueue, notifier = newNotifier, loops = [], slog = []\<rparr>"

subsection \<open>getNext: the two nested loops\<close>

fun scanPrios :: "queues \<Rightarrow> lane \<Rightarrow> prio list \<Rightarrow> (lane \<times> prio) option" where
  "scanPrios q l [] = None"
| "scanPrios q l (p # ps) = (if length (q l p) \<noteq> 0 then Some (l, p) else scanPrios q l ps)"

fun scanLanes :: "queues \<Rightarrow> lane list \<Rightarrow> (lane \<times> prio) option" where
  "scanLanes q [] = None"
| "scanLanes q (l # ls) =
     (case scanPrios q l PRIOS of Some c \<Rightarrow> Some c | None \<Rightarrow> scanLanes q ls)"

definition getNext :: "queues \<Rightarrow> (lane \<times> prio) option" where
  "getNext q = scanLanes q LANES"

subsection \<open>signalling, enqueue, stop\<close>

text \<open>Resuming a waiter moves its activation from \<open>Waiting\<close> to \<open>Woken\<close>.\<close>

definition resumeWaiter :: "nat \<Rightarrow> pc list \<Rightarrow> pc list" where
  "resumeWaiter w ls = (if w < length ls \<and> ls ! w = Waiting then ls[w := Woken] else ls)"

definition notify :: "scheduler \<Rightarrow> scheduler" where
  "notify s =
     (let (woken, n') = signal (notifier s)
      in s\<lparr>notifier := n', loops := foldr resumeWaiter woken (loops s)\<rparr>)"

definition push :: "task \<Rightarrow> lane \<Rightarrow> prio \<Rightarrow> queues \<Rightarrow> queues" where
  "push t l p q = q(l := (q l)(p := q l p @ [t]))"

definition enqueue :: "task \<Rightarrow> prio \<Rightarrow> lane \<Rightarrow> scheduler \<Rightarrow> scheduler" where
  "enqueue t p l s = notify (s\<lparr>queue := push t l p (queue s)\<rparr>)"

definition stop :: "scheduler \<Rightarrow> scheduler" where
  "stop s = notify (s\<lparr>status := Stopped\<rparr>)"

subsection \<open>tick\<close>

text \<open>
  \<open>tick\<close> up to its \<open>await task.run()\<close>: nothing to do (\<open>None\<close>), or the task shifted
  off its cell, with the cell and the state in which the start record is logged.
\<close>

definition shift :: "lane \<Rightarrow> prio \<Rightarrow> queues \<Rightarrow> queues" where
  "shift l p q = q(l := (q l)(p := tl (q l p)))"

definition tickBegin :: "scheduler \<Rightarrow> (task \<times> lane \<times> prio \<times> scheduler) option" where
  "tickBegin s =
     (case getNext (queue s) of
        None \<Rightarrow> None
      | Some (l, p) \<Rightarrow>
          (let t = hd (queue s l p);
               s1 = s\<lparr>queue := shift l p (queue s)\<rparr>;
               s2 = s1\<lparr>slog := slog s1 @
                      [\<lparr>taskId = tid t, priority = p, laneOf = l, event = LogStart\<rparr>]\<rparr>
           in Some (t, l, p, s2)))"

text \<open>\<open>tick\<close> after the task's promise settles: the end or the error record.\<close>

definition tickEnd :: "task \<Rightarrow> lane \<Rightarrow> prio \<Rightarrow> scheduler \<Rightarrow> scheduler" where
  "tickEnd t l p s =
     s\<lparr>slog := slog s @
        [\<lparr>taskId = tid t, priority = p, laneOf = l,
          event = (if runOk t then LogEnd else LogError)\<rparr>]\<rparr>"


subsection \<open>start and the run loop\<close>

text \<open>
  The head of the \<open>while\<close> loop: the test of the status and, when it holds, the call of
  \<open>tick\<close> up to its first \<open>await\<close>. It yields the position the activation is
  suspended at next.
\<close>

definition loopHead :: "scheduler \<Rightarrow> pc \<times> scheduler" where
  "loopHead s =
     (if status s = Running then
        (case tickBegin s of
           None \<Rightarrow> (AfterTick False, s)
         | Some (t, l, p, s') \<Rightarrow> (InTask t l p, s'))
      else (Exited, s))"

text \<open>
  One uninterrupted stretch of activation \<open>i\<close> of the run loop, from the \<open>await\<close> it is
  suspended at to its next one. A waiting activation is resumed by \<open>notify\<close> only.
\<close>

definition setPc :: "nat \<Rightarrow> pc \<times> scheduler \<Rightarrow> scheduler" where
  "setPc i cs = (snd cs)\<lparr>loops := (loops (snd cs))[i := fst cs]\<rparr>"

definition resume :: "nat \<Rightarrow> scheduler \<Rightarrow> scheduler" where
  "resume i s =
     (if i < length (loops s) then
        (case loops s ! i of
           InTask t l p \<Rightarrow> setPc i (AfterTick True, tickEnd t l p s)
         | AfterTick worked \<Rightarrow>
             (if \<not> worked \<and> status s = Running then
                (let s1 = s\<lparr>status := Idle\<rparr>;
                     (now, n') = wait i (notifier s1)
                 in setPc i (if now then Woken else Waiting, s1\<lparr>notifier := n'\<rparr>))
              else setPc i (loopHead s))
         | Waiting \<Rightarrow> s
         | Woken \<Rightarrow>
             setPc i (loopHead (if status s = Idle then s\<lparr>status := Running\<rparr> else s))
         | Exited \<Rightarrow> s)
      else s)"

datatype schedError = CannotRestart

text \<open>
  \<open>start()\<close>: a no-op while running, an error once stopped; otherwise a new activation
  of the loop, which runs at once up to its first \<open>await\<close>.
\<close>

definition start :: "scheduler \<Rightarrow> schedError + scheduler" where
  "start s =
     (if status s = Running then Inr s
      else if status s = Stopped then Inl CannotRestart
      else (let (c, s') = loopHead (s\<lparr>status := Running\<rparr>)
            in Inr (s'\<lparr>loops := loops s' @ [c]\<rparr>)))"

text \<open>What can happen to a scheduler, one step at a time, in any order.\<close>

datatype action =
    Enqueue task prio lane
  | Stop
  | Start
  | Resume nat

fun step :: "action \<Rightarrow> scheduler \<Rightarrow> scheduler" where
  "step (Enqueue t p l) s = enqueue t p l s"
| "step Stop s = stop s"
| "step Start s = (case start s of Inl e \<Rightarrow> s | Inr s' \<Rightarrow> s')"
| "step (Resume i) s = resume i s"

fun exec :: "action list \<Rightarrow> scheduler \<Rightarrow> scheduler" where
  "exec [] s = s"
| "exec (a # as) s = exec as (step a s)"

text \<open>The identifiers of the tasks whose run has begun, in the order they began.\<close>

definition started :: "scheduler \<Rightarrow> string list" where
  "started s = map taskId (filter (\<lambda>e. event e = LogStart) (slog s))"








section \<open>Notions and examples for the Scheduler\<close>









text \<open>
  A concrete race: the loop went idle and waits, an enqueue wakes it, and \<open>stop\<close> arrives
  before the woken activation runs again.
\<close>

definition taskT :: task where
  "taskT = \<lparr>tid = ''T'', runOk = True\<rparr>"

definition wokenWithWork :: scheduler where
  "wokenWithWork = exec [Start, Resume 0, Enqueue taskT High Domain] newScheduler"

section \<open>Events (events.ts, ui-messages.ts) and the model-call adapter (drivers/llm.ts)\<close>

text \<open>
  A JavaScript string is modelled as a \<open>string\<close>, one \<open>char\<close> for each code unit. The
  type \<open>char\<close> has 256 values, so strings with a code unit above 255 are not
  represented; only lengths, prefixes and concatenation of strings matter below.

  What a port or a library call throws is an error object, \<open>ErrorObject name message\<close>
  (the name is that of its class, such as \<open>Error\<close> or \<open>TypeError\<close>), or a bare string.
\<close>

datatype thrown = ErrorObject string string | ThrownString string

text \<open>
  \<open>(err && (err.message || String(err))) || "unknown error"\<close>. For an error object
  with an empty message \<open>String(err)\<close> is its name.
\<close>

fun errorText :: "thrown \<Rightarrow> string" where
  "errorText (ErrorObject name m) =
     (if m \<noteq> [] then m else if name \<noteq> [] then name else ''unknown error'')"
| "errorText (ThrownString t) = (if t \<noteq> [] then t else ''unknown error'')"

text \<open>\<open>String(e?.message ?? e)\<close>\<close>

fun messageOf :: "thrown \<Rightarrow> string" where
  "messageOf (ErrorObject name m) = m"
| "messageOf (ThrownString t) = t"

text \<open>
  The model port: for a prompt, the chunks its generator yields and, when the generator
  fails after them, what it throws.
\<close>

type_synonym llmPort = "string \<Rightarrow> string list \<times> thrown option"

text \<open>The internal events of events.ts, fields in the order of the declaration.\<close>

datatype event =
    START string
  | TokenChunk string string string
  | LlmComplete string string
  | LlmCanceled string string
  | LlmError string string string
  | UserInput string string string
  | ToolResult string string "string option" bool string

text \<open>
  \<open>START sessionId\<close>, \<open>TokenChunk chunk target reqId\<close>, \<open>LlmComplete target reqId\<close>,
  \<open>LlmCanceled target reqId\<close>, \<open>LlmError error target reqId\<close>,
  \<open>UserInput input target reqId\<close>, \<open>ToolResult target tool reqId ok data\<close>.
\<close>

text \<open>The fifteen kinds of UI event of ui-messages.ts.\<close>

datatype deliverableKind = KPath | KUrl | KText | KCode

datatype statusKind = SInterrupted | SMaxSteps

datatype phase = PLlm | PPlanner | PTool | PRuntime

datatype stopReason = RFinal | RError | RInterrupted | RMaxSteps

datatype uiEvent =
    SessionStart string string
  | UserTurn string string string
  | PlanningStart string string
  | StepEv int string "string option"
  | ActionEv int string string string "string option"
  | Observation string bool string
  | DeliverableEv int deliverableKind string "string option" "string option"
  | FinalEv int string "(deliverableKind \<times> string) list"
  | StatusEv statusKind
  | ErrorEv phase string
  | PlanningStop string string stopReason "string option"
  | LlmStart string string string
  | StreamToken string string
  | StreamDone string
  | LlmEnd string string "nat option"

text \<open>
  \<open>SessionStart sessionId agentId\<close>, \<open>UserTurn agentId requestId input\<close>,
  \<open>PlanningStart agentId requestId\<close>, \<open>StepEv step goal say\<close>,
  \<open>ActionEv step tool toolcallId args say\<close>, \<open>Observation tool ok data\<close>,
  \<open>DeliverableEv step kind content meta say\<close>, \<open>FinalEv step summary deliverables\<close>,
  \<open>StatusEv status\<close>, \<open>ErrorEv phase message\<close>,
  \<open>PlanningStop agentId requestId reason detail\<close>,
  \<open>LlmStart target requestId promptPreview\<close>, \<open>StreamToken target token\<close>,
  \<open>StreamDone target\<close>, \<open>LlmEnd target requestId tokens\<close>. Time stamps and durations
  are left out; tool arguments and metadata, which are arbitrary JSON in the source, are
  carried as their text.
\<close>

text \<open>
  Everything the adapter hands to \<open>dispatch\<close>: an internal event (an object with a
  \<open>type\<close>) or a UI event (an object with a \<open>kind\<close>). The request id is drawn from the
  clock and a random number in the source; it is a parameter here.
\<close>

datatype dispatched = Internal event | Shown uiEvent

text \<open>A task handed to the scheduler by an adapter: where it is queued and what it does.\<close>

record 'r job =
  jobId :: string
  jobLane :: lane
  jobPrio :: prio
  jobDispatches :: "dispatched list"
  jobResult :: 'r

text \<open>The \<open>for await\<close> loop of \<open>run\<close>: two dispatches for each chunk, counting the chunks.\<close>

fun streamChunks :: "string \<Rightarrow> string \<Rightarrow> string list \<Rightarrow> nat \<Rightarrow> dispatched list \<times> nat" where
  "streamChunks target reqId [] tokenCount = ([], tokenCount)"
| "streamChunks target reqId (chunk # rest) tokenCount =
     (let (ds, n) = streamChunks target reqId rest (tokenCount + 1)
      in (Internal (TokenChunk chunk target reqId) # Shown (StreamToken target chunk) # ds, n))"

definition runTask :: "llmPort \<Rightarrow> string \<Rightarrow> string \<Rightarrow> string \<Rightarrow> dispatched list" where
  "runTask generate prompt target reqId =
     (let (chunks, failure) = generate prompt;
          (ds, tokenCount) = streamChunks target reqId chunks 0
      in case failure of
           None \<Rightarrow> ds @ [Shown (StreamDone target), Internal (LlmComplete target reqId),
                         Shown (LlmEnd target reqId (Some tokenCount))]
         | Some err \<Rightarrow> ds @ [Internal (LlmError (errorText err) target reqId),
                             Shown (StreamDone target),
                             Shown (LlmEnd target reqId (Some tokenCount))])"

text \<open>
  \<open>run\<close>: what is dispatched at once, and the job placed on the domain lane at medium
  priority.
\<close>

definition run :: "llmPort \<Rightarrow> string \<Rightarrow> string \<Rightarrow> string \<Rightarrow> dispatched list \<times> unit job" where
  "run generate prompt target reqId =
     ([Shown (LlmStart target reqId (take 160 prompt))],
      \<lparr>jobId = reqId, jobLane = Domain, jobPrio = Medium,
        jobDispatches = runTask generate prompt target reqId, jobResult = ()\<rparr>)"

text \<open>The loop of \<open>runOnce\<close>: \<open>buf += chunk\<close>.\<close>

fun gather :: "string list \<Rightarrow> string \<Rightarrow> string" where
  "gather [] buf = buf"
| "gather (chunk # rest) buf = gather rest (buf @ chunk)"

definition runOnceTask :: "llmPort \<Rightarrow> string \<Rightarrow> thrown + string" where
  "runOnceTask generate prompt =
     (let (chunks, failure) = generate prompt
      in case failure of None \<Rightarrow> Inr (gather chunks []) | Some err \<Rightarrow> Inl err)"

text \<open>
  The white space of \<open>\s\<close> and of \<open>trim()\<close> among the code units up to 255: space, tab,
  line feed, vertical tab, form feed, carriage return and the no-break space U+00A0. The
  other white space of JavaScript lies above 255.
\<close>

definition isSpace :: "char \<Rightarrow> bool" where
  "isSpace c =
     (c \<in> set [CHR '' '', CHR 0x09, CHR 0x0A, CHR 0x0B, CHR 0x0C, CHR 0x0D, CHR 0xA0])"

text \<open>
  The token estimate of \<open>runOnce\<close>, \<open>buf.split(/\s+/).length\<close>: one more than the number
  of maximal runs of white space.
\<close>

fun spaceRuns :: "bool \<Rightarrow> string \<Rightarrow> nat" where
  "spaceRuns inRun [] = 0"
| "spaceRuns inRun (c # cs) =
     (if isSpace c then (if inRun then 0 else 1) + spaceRuns True cs else spaceRuns False cs)"

definition roughTokens :: "string \<Rightarrow> nat" where
  "roughTokens buf = (if length buf \<noteq> 0 then spaceRuns False buf + 1 else 0)"

text \<open>
  \<open>runOnce\<close>: the dispatch made at once, the job, and in the job's result what is
  dispatched when the job has settled together with what the caller's promise settles to.
\<close>

definition runOnce ::
  "llmPort \<Rightarrow> string \<Rightarrow> string \<Rightarrow> string \<Rightarrow>
   dispatched list \<times> (dispatched list \<times> (thrown + string)) job" where
  "runOnce generate prompt target reqId =
     ([Shown (LlmStart target reqId (take 160 prompt))],
      \<lparr>jobId = reqId, jobLane = Domain, jobPrio = Medium, jobDispatches = [],
        jobResult =
          (case runOnceTask generate prompt of
             Inl err \<Rightarrow> ([Shown (LlmEnd target reqId None)], Inl err)
           | Inr buf \<Rightarrow> ([Shown (LlmEnd target reqId (Some (roughTokens buf)))], Inr buf))\<rparr>)"

text \<open>All dispatches of one call, in order, and the texts of its \<open>stream-token\<close> events.\<close>

definition runDispatches :: "llmPort \<Rightarrow> string \<Rightarrow> string \<Rightarrow> string \<Rightarrow> dispatched list" where
  "runDispatches generate prompt target reqId =
     (let (now, j) = run generate prompt target reqId in now @ jobDispatches j)"

definition runOnceDispatches :: "llmPort \<Rightarrow> string \<Rightarrow> string \<Rightarrow> string \<Rightarrow> dispatched list" where
  "runOnceDispatches generate prompt target reqId =
     (let (now, j) = runOnce generate prompt target reqId
      in now @ jobDispatches j @ fst (jobResult j))"

definition runOnceResult :: "llmPort \<Rightarrow> string \<Rightarrow> string \<Rightarrow> string \<Rightarrow> thrown + string" where
  "runOnceResult generate prompt target reqId =
     snd (jobResult (snd (runOnce generate prompt target reqId)))"

fun streamTokens :: "dispatched list \<Rightarrow> string list" where
  "streamTokens [] = []"
| "streamTokens (Shown (StreamToken target token) # ds) = token # streamTokens ds"
| "streamTokens (d # ds) = streamTokens ds"

fun isPerToken :: "dispatched \<Rightarrow> bool" where
  "isPerToken (Shown (StreamToken target token)) = True"
| "isPerToken (Internal (TokenChunk chunk target reqId)) = True"
| "isPerToken d = False"

definition twoChunks :: llmPort where
  "twoChunks = (\<lambda>prompt. ([''{\"a\":'', '' 1}''], None))"

section \<open>Filesystem port (drivers/fs-port.ts)\<close>

text \<open>
  \<open>join\<close> and \<open>resolve\<close> come from the \<open>node:path\<close> library. Their POSIX behaviour is
  written out here: a path is cut at \<open>/\<close>, empty and \<open>.\<close> segments are dropped, \<open>..\<close>
  removes the segment before it (at the root it is dropped), and a relative path is
  resolved against the working directory \<open>cwd\<close>. \<open>join\<close> would also normalise its
  result; the port passes every joined path on to \<open>resolve\<close>, which does it anyway.
\<close>

fun splitOn :: "char \<Rightarrow> string \<Rightarrow> string \<Rightarrow> string list" where
  "splitOn sep [] cur = [cur]"
| "splitOn sep (c # cs) cur =
     (if c = sep then cur # splitOn sep cs [] else splitOn sep cs (cur @ [c]))"

definition segments :: "string \<Rightarrow> string list" where
  "segments p = splitOn (CHR ''/'') p []"

fun normalizeSegs :: "string list \<Rightarrow> string list \<Rightarrow> string list" where
  "normalizeSegs [] kept = rev kept"
| "normalizeSegs (x # xs) kept =
     (if x = [] \<or> x = ''.'' then normalizeSegs xs kept
      else if x = ''..'' then normalizeSegs xs (tl kept)
      else normalizeSegs xs (x # kept))"

definition absolutePath :: "string list \<Rightarrow> string" where
  "absolutePath segs = (if segs = [] then ''/'' else concat (map (\<lambda>x. ''/'' @ x) segs))"

definition resolvedSegs :: "string \<Rightarrow> string \<Rightarrow> string list" where
  "resolvedSegs cwd p =
     normalizeSegs (segments (if take 1 p = ''/'' then p else cwd @ ''/'' @ p)) []"

definition resolve :: "string \<Rightarrow> string \<Rightarrow> string" where
  "resolve cwd p = absolutePath (resolvedSegs cwd p)"

fun joinWith :: "string \<Rightarrow> string list \<Rightarrow> string" where
  "joinWith sep [] = []"
| "joinWith sep [x] = x"
| "joinWith sep (x # y # ys) = x @ sep @ joinWith sep (y # ys)"

definition joinPath :: "string list \<Rightarrow> string" where
  "joinPath parts = joinWith ''/'' (filter (\<lambda>x. x \<noteq> []) parts)"

text \<open>
  The calls the port makes to \<open>node:fs\<close>, in order, are the port's effect on the file
  system. Whether a call succeeds, and what a read returns, is up to the file system
  \<open>io\<close>.
\<close>

datatype fsCall =
    MkdirP string
  | ReadFile string
  | WriteFile string string
  | AppendFile string string

type_synonym fileSystem = "fsCall \<Rightarrow> thrown + string"

record fsArgs =
  argOp :: string
  argPath :: string
  argContent :: "string option"

record toolOut =
  outOk :: bool
  outData :: string

definition safe :: "string \<Rightarrow> string \<Rightarrow> string \<Rightarrow> thrown + string" where
  "safe cwd root p =
     (let full = resolve cwd (joinPath [root, p])
      in if \<not> prefix (resolve cwd root) full then Inl (ErrorObject ''Error'' ''path escapes workspace'')
         else Inr full)"

definition failed :: "thrown \<Rightarrow> toolOut" where
  "failed e = \<lparr>outOk = False, outData = messageOf e\<rparr>"

definition contentOf :: "fsArgs \<Rightarrow> string" where
  "contentOf args = (case argContent args of None \<Rightarrow> [] | Some c \<Rightarrow> c)"

definition fsRun :: "string \<Rightarrow> string \<Rightarrow> fileSystem \<Rightarrow> fsArgs \<Rightarrow> fsCall list \<times> toolOut" where
  "fsRun cwd root io args =
     (if argOp args = ''read'' then
        (case safe cwd root (argPath args) of
           Inl e \<Rightarrow> ([], failed e)
         | Inr full \<Rightarrow>
             (case io (ReadFile full) of
                Inl e \<Rightarrow> ([ReadFile full], failed e)
              | Inr d \<Rightarrow> ([ReadFile full], \<lparr>outOk = True, outData = d\<rparr>)))
      else if argOp args = ''write'' then
        (let dir = resolve cwd (joinPath [root, argPath args, ''..''])
         in case io (MkdirP dir) of
              Inl e \<Rightarrow> ([MkdirP dir], failed e)
            | Inr u \<Rightarrow>
                (case safe cwd root (argPath args) of
                   Inl e \<Rightarrow> ([MkdirP dir], failed e)
                 | Inr full \<Rightarrow>
                     (case io (WriteFile full (contentOf args)) of
                        Inl e \<Rightarrow> ([MkdirP dir, WriteFile full (contentOf args)], failed e)
                      | Inr v \<Rightarrow> ([MkdirP dir, WriteFile full (contentOf args)],
                                   \<lparr>outOk = True, outData = ''ok''\<rparr>))))
      else if argOp args = ''append'' then
        (case safe cwd root (argPath args) of
           Inl e \<Rightarrow> ([], failed e)
         | Inr full \<Rightarrow>
             (case io (AppendFile full (contentOf args)) of
                Inl e \<Rightarrow> ([AppendFile full (contentOf args)], failed e)
              | Inr v \<Rightarrow> ([AppendFile full (contentOf args)], \<lparr>outOk = True, outData = ''ok''\<rparr>)))
      else ([], \<lparr>outOk = False, outData = ''unsupported fs op''\<rparr>))"

text \<open>
  The specification's notion: a resolved path lies within the root directory when the
  root's segments are the first segments of the path. \<open>touched\<close> lists the paths that
  the calls of a run create or modify.
\<close>

definition withinRoot :: "string \<Rightarrow> string \<Rightarrow> string \<Rightarrow> bool" where
  "withinRoot cwd root full = prefix (resolvedSegs cwd root) (resolvedSegs cwd full)"

fun touched :: "fsCall list \<Rightarrow> string list" where
  "touched [] = []"
| "touched (MkdirP d # cs) = d # touched cs"
| "touched (WriteFile f c # cs) = f # touched cs"
| "touched (AppendFile f c # cs) = f # touched cs"
| "touched (ReadFile f # cs) = touched cs"

definition obligingFs :: fileSystem where
  "obligingFs = (\<lambda>c. Inr [])"

section \<open>BuilderAgent (actors/builder-agent.ts)\<close>

datatype role = System | User | Assistant

fun roleUpper :: "role \<Rightarrow> string" where
  "roleUpper System = ''SYSTEM''"
| "roleUpper User = ''USER''"
| "roleUpper Assistant = ''ASSISTANT''"

text \<open>
  A validated planner message (the schema \<open>PlannerMsg\<close>), fields in the order of the
  schema: \<open>MStep step goal say\<close>, \<open>MAction step toolcall_id tool args say\<close>,
  \<open>MDeliverable step kind content meta say\<close>, \<open>MFinal step summary deliverables\<close>.
\<close>

datatype plannerMsg =
    MStep int string "string option"
  | MAction int string string string "string option"
  | MDeliverable int deliverableKind string "string option" "string option"
  | MFinal int string "(deliverableKind \<times> string) list"

text \<open>\<open>ToolCall tool args target\<close>, the one effect the agent submits.\<close>

datatype effect = ToolCall string string string

text \<open>
  What the agent is given and what lies outside the repository: the non-streaming model
  call \<open>llmOnce\<close> (its answer may depend on the prompt, the target and on how many calls
  came before; it resolves to a text or rejects), \<open>JSON.parse\<close> followed by the schema's
  \<open>parse\<close> (the message, or the hint computed from what was thrown), and
  \<open>JSON.stringify\<close>.
\<close>

record planner =
  llmOnce :: "nat \<Rightarrow> string \<Rightarrow> string \<Rightarrow> thrown + string"
  parseTurn :: "string \<Rightarrow> string + plannerMsg"
  stringify :: "plannerMsg \<Rightarrow> string"

text \<open>
  The agent's fields, and the record of its calls to the three callbacks it was built
  with: \<open>updates\<close> (\<open>onUpdate\<close>), \<open>effects\<close> (\<open>submitEffect\<close>) and \<open>prompts\<close> (one
  entry for each call of \<open>llmOnce\<close>).
\<close>

record agent =
  ident :: string
  interrupted :: bool
  steps :: nat
  currentReqId :: "string option"
  convo :: "(role \<times> string) list"
  updates :: "uiEvent list"
  effects :: "effect list"
  prompts :: "string list"

definition MAX_STEPS :: nat where
  "MAX_STEPS = 12"

definition MAX_REPAIRS :: nat where
  "MAX_REPAIRS = 2"

text \<open>A new agent; \<open>sys\<close> is the text of the system prompt.\<close>

definition newAgent :: "string \<Rightarrow> string \<Rightarrow> agent" where
  "newAgent i sys =
     \<lparr>ident = i, interrupted = False, steps = 0, currentReqId = None,
      convo = [(System, sys)], updates = [], effects = [], prompts = []\<rparr>"

definition onUpdate :: "uiEvent \<Rightarrow> agent \<Rightarrow> agent" where
  "onUpdate e s = s\<lparr>updates := updates s @ [e]\<rparr>"

definition submitEffect :: "effect \<Rightarrow> agent \<Rightarrow> agent" where
  "submitEffect e s = s\<lparr>effects := effects s @ [e]\<rparr>"

text \<open>
  An optional string is spread into an event only when it is truthy: present and not
  empty.
\<close>

fun truthy :: "string option \<Rightarrow> string option" where
  "truthy None = None"
| "truthy (Some x) = (if x = [] then None else Some x)"

definition emitPlanningStop :: "stopReason \<Rightarrow> string option \<Rightarrow> agent \<Rightarrow> agent" where
  "emitPlanningStop reason detail s =
     (case truthy (currentReqId s) of
        None \<Rightarrow> s
      | Some requestId \<Rightarrow>
          (onUpdate (PlanningStop (ident s) requestId reason (truthy detail)) s)
            \<lparr>currentReqId := None\<rparr>)"

definition interrupt :: "agent \<Rightarrow> agent" where
  "interrupt s = s\<lparr>interrupted := True\<rparr>"

definition nl :: string where
  "nl = [CHR 0x0A]"

definition render :: "(role \<times> string) list \<Rightarrow> string" where
  "render c = joinWith (nl @ nl) (map (\<lambda>(r, content). roleUpper r @ '': '' @ content) c)"

definition callLlm :: "planner \<Rightarrow> string \<Rightarrow> agent \<Rightarrow> (thrown + string) \<times> agent" where
  "callLlm env prompt s =
     (llmOnce env (length (prompts s)) prompt (ident s), s\<lparr>prompts := prompts s @ [prompt]\<rparr>)"

text \<open>The fixed texts of the prompts.\<close>

definition roundInstruction :: string where
  "roundInstruction =
     ''Return ONLY JSON: {\"schema_version\":1,\"message\":{...}} matching the schema exactly.''"

definition repairInstruction :: string where
  "repairInstruction = ''Return ONLY JSON matching the schema.''"

definition repairMessage :: "string \<Rightarrow> string" where
  "repairMessage repairHint =
     ''Your last response was invalid.'' @ nl @
     ''Validation error(s):'' @ nl @ repairHint @ nl @ nl @
     ''Re-emit ONLY a correct JSON object: {\"schema_version\":1,\"message\":{...}}. No extra text.''"

definition maxStepsDetail :: string where
  "maxStepsDetail = ''Reached 12 planner steps''"

text \<open>The callback \<open>ask\<close> that \<open>loop\<close> passes to \<open>parseOrRepair\<close>.\<close>

definition ask :: "planner \<Rightarrow> string \<Rightarrow> agent \<Rightarrow> (thrown + string) \<times> agent" where
  "ask env repairHint s =
     (let repairMsg = repairMessage repairHint;
          s1 = s\<lparr>convo := convo s @ [(User, repairMsg)]\<rparr>
      in callLlm env (render (convo s1) @ nl @ nl @ repairInstruction) s1)"

definition giveUp :: "string \<Rightarrow> thrown" where
  "giveUp lastErr =
     ErrorObject ''Error'' (if lastErr \<noteq> [] then lastErr else ''unknown validation error'')"

text \<open>
  \<open>parseOrRepair\<close>: the \<open>for\<close> loop from iteration \<open>i\<close> on, with the current \<open>raw\<close> and
  \<open>lastErr\<close>.
\<close>

function parseOrRepairFrom ::
  "planner \<Rightarrow> nat \<Rightarrow> string \<Rightarrow> string \<Rightarrow> agent \<Rightarrow> (thrown + plannerMsg) \<times> agent" where
  "parseOrRepairFrom env i raw lastErr s =
     (if i \<le> MAX_REPAIRS then
        (case parseTurn env raw of
           Inr turn \<Rightarrow> (Inr turn, s)
         | Inl hint \<Rightarrow>
             (if i = MAX_REPAIRS then (Inl (giveUp (take 2000 hint)), s)
              else (case ask env (take 2000 hint) s of
                      (Inl e, s') \<Rightarrow> (Inl e, s')
                    | (Inr raw', s') \<Rightarrow> parseOrRepairFrom env (i + 1) raw' (take 2000 hint) s')))
      else (Inl (giveUp lastErr), s))"
  by pat_completeness auto

termination
  by (relation "measure (\<lambda>(env, i, raw, lastErr, s). MAX_REPAIRS + 1 - i)") auto

declare parseOrRepairFrom.simps [simp del]

definition parseOrRepair :: "planner \<Rightarrow> string \<Rightarrow> agent \<Rightarrow> (thrown + plannerMsg) \<times> agent" where
  "parseOrRepair env raw s = parseOrRepairFrom env 0 raw [] s"

definition trim :: "string \<Rightarrow> string" where
  "trim x = rev (dropWhile isSpace (rev (dropWhile isSpace x)))"

lemma steps_callLlm [simp]: "steps (snd (callLlm env prompt s)) = steps s"
  by (simp add: callLlm_def)

lemma steps_ask [simp]: "steps (snd (ask env h s)) = steps s"
  by (simp add: ask_def Let_def)

text \<open>The branches of one iteration, each as an equation of its own.\<close>

lemma parseOrRepairFrom_beyond:
  "\<not> i \<le> MAX_REPAIRS \<Longrightarrow> parseOrRepairFrom env i raw lastErr s = (Inl (giveUp lastErr), s)"
  by (subst parseOrRepairFrom.simps) simp

lemma parseOrRepairFrom_valid:
  "i \<le> MAX_REPAIRS \<Longrightarrow> parseTurn env raw = Inr turn \<Longrightarrow>
   parseOrRepairFrom env i raw lastErr s = (Inr turn, s)"
  by (subst parseOrRepairFrom.simps) simp

lemma parseOrRepairFrom_exhausted:
  "i = MAX_REPAIRS \<Longrightarrow> parseTurn env raw = Inl hint \<Longrightarrow>
   parseOrRepairFrom env i raw lastErr s = (Inl (giveUp (take 2000 hint)), s)"
  by (subst parseOrRepairFrom.simps) simp

lemma parseOrRepairFrom_ask_rejects:
  "i < MAX_REPAIRS \<Longrightarrow> parseTurn env raw = Inl hint \<Longrightarrow>
   ask env (take 2000 hint) s = (Inl e, s') \<Longrightarrow>
   parseOrRepairFrom env i raw lastErr s = (Inl e, s')"
  by (subst parseOrRepairFrom.simps) simp

lemma parseOrRepairFrom_again:
  "i < MAX_REPAIRS \<Longrightarrow> parseTurn env raw = Inl hint \<Longrightarrow>
   ask env (take 2000 hint) s = (Inr raw', s') \<Longrightarrow>
   parseOrRepairFrom env i raw lastErr s =
     parseOrRepairFrom env (i + 1) raw' (take 2000 hint) s'"
  by (subst parseOrRepairFrom.simps) simp

text \<open>
  Whatever relation between agent states is reflexive, transitive and holds across
  \<open>ask\<close> holds across \<open>parseOrRepair\<close>.
\<close>

lemma parseOrRepairFrom_rel:
  assumes rfl: "\<And>s. R s s"
    and trn: "\<And>a b c. R a b \<Longrightarrow> R b c \<Longrightarrow> R a c"
  shows "(\<And>h s. R s (snd (ask env h s))) \<Longrightarrow>
         R s (snd (parseOrRepairFrom env i raw lastErr s))"
proof (induction env i raw lastErr s rule: parseOrRepairFrom.induct)
  case (1 env i raw lastErr s)
  note stp = "1.prems"
  show ?case
  proof (cases "i \<le> MAX_REPAIRS")
    case False
    then show ?thesis by (simp add: parseOrRepairFrom_beyond rfl)
  next
    case le: True
    show ?thesis
    proof (cases "parseTurn env raw")
      case (Inr turn)
      with le show ?thesis by (simp add: parseOrRepairFrom_valid rfl)
    next
      case (Inl hint)
      show ?thesis
      proof (cases "i = MAX_REPAIRS")
        case True
        with Inl show ?thesis by (simp add: parseOrRepairFrom_exhausted rfl)
      next
        case ne: False
        with le have lt: "i < MAX_REPAIRS" by simp
        obtain r s' where a: "ask env (take 2000 hint) s = (r, s')"
          by (cases "ask env (take 2000 hint) s")
        from stp [of s "take 2000 hint"] a have ss': "R s s'" by simp
        show ?thesis
        proof (cases r)
          case e: (Inl e)
          with a lt Inl ss' show ?thesis by (simp add: parseOrRepairFrom_ask_rejects)
        next
          case (Inr raw')
          with a have a': "(Inr raw', s') = ask env (take 2000 hint) s" by simp
          have "R s' (snd (parseOrRepairFrom env (i + 1) raw' (take 2000 hint) s'))"
            by (rule "1.IH" [OF le Inl ne a' refl stp])
          with ss' have "R s (snd (parseOrRepairFrom env (i + 1) raw' (take 2000 hint) s'))"
            by (rule trn)
          with a lt Inl Inr show ?thesis by (simp add: parseOrRepairFrom_again)
        qed
      qed
    qed
  qed
qed

lemma steps_parseOrRepairFrom [simp]:
  "steps (snd (parseOrRepairFrom env i raw lastErr s)) = steps s"
  by (rule parseOrRepairFrom_rel [where R = "\<lambda>a b. steps b = steps a"]) simp_all

lemma steps_parseOrRepair [simp]: "steps (snd (parseOrRepair env raw s)) = steps s"
  by (simp add: parseOrRepair_def)

function loop :: "planner \<Rightarrow> agent \<Rightarrow> agent"
  and handleMessage :: "planner \<Rightarrow> plannerMsg \<Rightarrow> agent \<Rightarrow> agent" where
  "loop env s =
     (if interrupted s then
        emitPlanningStop RInterrupted None (onUpdate (StatusEv SInterrupted) s)
      else if steps s \<ge> MAX_STEPS then
        emitPlanningStop RMaxSteps (Some maxStepsDetail)
          (onUpdate (StatusEv SMaxSteps) s)
      else
        (let s1 = s\<lparr>steps := steps s + 1\<rparr>;
             prompt = render (convo s1) @ nl @ nl @ roundInstruction;
             answer = callLlm env prompt s1
         in case fst answer of
              Inl e \<Rightarrow>
                emitPlanningStop RError (Some (messageOf e))
                  (onUpdate (ErrorEv PPlanner (messageOf e)) (snd answer))
            | Inr raw \<Rightarrow>
                (let repaired = parseOrRepair env raw (snd answer)
                 in case fst repaired of
                      Inl e \<Rightarrow>
                        emitPlanningStop RError (Some (''planner output invalid: '' @ messageOf e))
                          (onUpdate (ErrorEv PPlanner (''planner output invalid: '' @ messageOf e))
                             (snd repaired))
                    | Inr turn \<Rightarrow>
                        handleMessage env turn
                          ((snd repaired)\<lparr>convo := convo (snd repaired) @
                              [(Assistant, stringify env turn)]\<rparr>))))"
| "handleMessage env (MStep st goal say) s =
     loop env (onUpdate (StepEv st goal (truthy say)) s)"
| "handleMessage env (MAction st toolcallId tool args say) s =
     submitEffect (ToolCall tool args (ident s))
       (onUpdate (ActionEv st tool toolcallId args (truthy say)) s)"
| "handleMessage env (MDeliverable st kind content meta say) s =
     loop env (onUpdate (DeliverableEv st kind content meta (truthy say)) s)"
| "handleMessage env (MFinal st summary deliverables) s =
     emitPlanningStop RFinal None (onUpdate (FinalEv st (trim summary) deliverables) s)"
  by pat_completeness auto

termination
  apply (relation "measure (\<lambda>x. case x of
            Inl (env, s) \<Rightarrow> 2 * (MAX_STEPS + 1 - steps s)
          | Inr (env, m, s) \<Rightarrow> 2 * (MAX_STEPS + 1 - steps s) + 1)")
  apply (auto simp: onUpdate_def)
  done

declare loop.simps [simp del]

text \<open>
  \<open>on\<close>: the handler runs the planner loop with \<open>void this.loop()\<close>. The state returned
  here is the one in which that loop has come to rest, every model call having settled
  before any other event or \<open>interrupt\<close> reaches the agent. An input that arrives while
  a loop is suspended at a model call, which the source allows, is not represented: it
  would share \<open>steps\<close> and \<open>currentReqId\<close> with the suspended loop. The \<open>reqId\<close> of a user input
  is a string by the event's type, so the fallback of \<open>event.reqId ?? ...\<close> is never
  taken; an empty string is kept as it is.
\<close>

fun on :: "planner \<Rightarrow> event \<Rightarrow> agent \<Rightarrow> agent" where
  "on env (UserInput input target reqId) s =
     (if target = ident s then
        (let s1 = s\<lparr>currentReqId := Some reqId, convo := convo s @ [(User, input)],
                    steps := 0, interrupted := False\<rparr>;
             s2 = onUpdate (UserTurn (ident s1) reqId input) s1;
             s3 = onUpdate (PlanningStart (ident s2) reqId) s2
         in loop env s3)
      else s)"
| "on env (ToolResult target tool reqId ok data) s =
     (if target = ident s then
        (let truncated = take 2000 data;
             s1 = s\<lparr>convo := convo s @
                    [(User, ''TOOL('' @ tool @ '') -> '' @ (if ok then ''ok'' else ''error'') @
                            nl @ truncated)]\<rparr>;
             s2 = onUpdate (Observation tool ok truncated) s1
         in loop env s2)
      else s)"
| "on env (LlmError err target reqId) s =
     (if target = ident s then
        emitPlanningStop RError (Some err) (onUpdate (ErrorEv PLlm err) s)
      else s)"
| "on env (START sessionId) s = s"
| "on env (TokenChunk chunk target reqId) s = s"
| "on env (LlmComplete target reqId) s = s"
| "on env (LlmCanceled target reqId) s = s"

text \<open>What reaches an agent from outside: an event, or a call of \<open>interrupt\<close>.\<close>

datatype input = Event event | Interrupt

fun handle :: "planner \<Rightarrow> input \<Rightarrow> agent \<Rightarrow> agent" where
  "handle env (Event e) s = on env e s"
| "handle env Interrupt s = interrupt s"

fun handleAll :: "planner \<Rightarrow> input list \<Rightarrow> agent \<Rightarrow> agent" where
  "handleAll env [] s = s"
| "handleAll env (i # is) s = handleAll env is (handle env i s)"

subsection \<open>Notions and examples used in the properties of the BuilderAgent\<close>

text \<open>The prompt of the first model call of a round that starts in state \<open>s\<close>.\<close>

definition roundPrompt :: "agent \<Rightarrow> string" where
  "roundPrompt s = render (convo s) @ nl @ nl @ roundInstruction"

text \<open>
  The elementary changes that the planner loop makes to an agent: it emits an event
  other than a user turn or a planning-stop (a \<open>plain\<close> event), calls
  \<open>emitPlanningStop\<close>, submits an effect, records a model call, appends a transcript
  entry, or counts a step. \<open>evolves s t\<close> holds when \<open>t\<close> comes from \<open>s\<close> by a sequence
  of such changes.
\<close>

fun plain :: "uiEvent \<Rightarrow> bool" where
  "plain (UserTurn a r i) = False"
| "plain (PlanningStop a r reason detail) = False"
| "plain e = True"

inductive evolves :: "agent \<Rightarrow> agent \<Rightarrow> bool" where
  same: "evolves s s"
| update: "evolves s t \<Longrightarrow> plain e \<Longrightarrow> evolves s (onUpdate e t)"
| stopped: "evolves s t \<Longrightarrow> evolves s (emitPlanningStop reason detail t)"
| effect: "evolves s t \<Longrightarrow> evolves s (submitEffect e t)"
| called: "evolves s t \<Longrightarrow> evolves s (t\<lparr>prompts := prompts t @ [p]\<rparr>)"
| entry: "evolves s t \<Longrightarrow> evolves s (t\<lparr>convo := convo t @ [c]\<rparr>)"
| counted: "evolves s t \<Longrightarrow> evolves s (t\<lparr>steps := Suc (steps t)\<rparr>)"

text \<open>
  Reading a list of UI events from the left: \<open>openAfter a es\<close> is the request that is
  open after \<open>es\<close> when \<open>a\<close> was open before: a user turn opens its request, a
  planning-stop closes whatever is open. \<open>stopsBracketed a es\<close> holds when every
  planning-stop in \<open>es\<close> closes the request that is open at that point and carries its
  id. So between two user turns there is at most one planning-stop, and none before the
  first user turn.
\<close>

fun openAfter :: "string option \<Rightarrow> uiEvent list \<Rightarrow> string option" where
  "openAfter a [] = a"
| "openAfter a (UserTurn agentId r i # es) = openAfter (Some r) es"
| "openAfter a (PlanningStop agentId r reason detail # es) = openAfter None es"
| "openAfter a (e # es) = openAfter a es"

fun stopsBracketed :: "string option \<Rightarrow> uiEvent list \<Rightarrow> bool" where
  "stopsBracketed a [] = True"
| "stopsBracketed a (UserTurn agentId r i # es) = stopsBracketed (Some r) es"
| "stopsBracketed a (PlanningStop agentId r reason detail # es) =
     (a = Some r \<and> stopsBracketed None es)"
| "stopsBracketed a (e # es) = stopsBracketed a es"

fun isPlanningStop :: "uiEvent \<Rightarrow> bool" where
  "isPlanningStop (PlanningStop agentId r reason detail) = True"
| "isPlanningStop e = False"

fun isUserTurn :: "uiEvent \<Rightarrow> bool" where
  "isUserTurn (UserTurn agentId r i) = True"
| "isUserTurn e = False"

text \<open>
  The invariant of an agent: its events so far are bracketed, and a request it holds as
  current (a non-empty id) is the one that is open.
\<close>

definition consistent :: "agent \<Rightarrow> bool" where
  "consistent s =
     (stopsBracketed None (updates s) \<and>
      (case truthy (currentReqId s) of
         None \<Rightarrow> True
       | Some r \<Rightarrow> openAfter None (updates s) = Some r))"

text \<open>
  Concrete planners and agents: a model whose answers never validate, and an agent in
  the middle of the turn \<open>user-1\<close>.
\<close>

definition neverValid :: planner where
  "neverValid =
     \<lparr>llmOnce = (\<lambda>n prompt target. Inr ''not json''),
      parseTurn = (\<lambda>raw. Inl ''Unexpected token''),
      stringify = (\<lambda>m. ''{}'')\<rparr>"

definition idleAgent :: agent where
  "idleAgent = newAgent ''agent#1'' ''You are a self-building agent.''"

definition busyAgent :: agent where
  "busyAgent = idleAgent\<lparr>currentReqId := Some ''user-1''\<rparr>"


text \<open>
  The model answers the \<open>MAX_STEPS\<close> calls from the one numbered \<open>n0\<close> on, whatever the
  prompt, with a text that validates as a step message.
\<close>

definition answersStep :: "planner \<Rightarrow> string \<Rightarrow> nat \<Rightarrow> bool" where
  "answersStep env target n0 =
     (\<forall>n prompt. n0 \<le> n \<and> n < n0 + MAX_STEPS \<longrightarrow>
        (\<exists>raw st goal say. llmOnce env n prompt target = Inr raw \<and>
           parseTurn env raw = Inr (MStep st goal say)))"

fun isStepEv :: "uiEvent \<Rightarrow> bool" where
  "isStepEv (StepEv st goal say) = True"
| "isStepEv e = False"

text \<open>A model that plans one more step at every call.\<close>

definition onlySteps :: planner where
  "onlySteps =
     \<lparr>llmOnce = (\<lambda>n prompt target. Inr ''step''),
      parseTurn = (\<lambda>raw. Inr (MStep 1 ''look around'' None)),
      stringify = (\<lambda>m. ''{}'')\<rparr>"

chapter \<open>Properties\<close>

section \<open>Properties of the Notifier\<close>

lemma signal_simps:
  "fst (signal n) = waitQueue n"
  "waitQueue (afterSignal n) = []"
  "hasPendingSignal (afterSignal n) = (waitQueue n = [] \<or> hasPendingSignal n)"
  by (simp_all add: signal_def afterSignal_def Let_def)

lemma signals_collapse:
  "waitQueue n = [] \<Longrightarrow> signals (Suc k) n = afterSignal n"
proof (induction k arbitrary: n)
  case 0
  then show ?case by simp
next
  case (Suc k)
  have "afterSignal (afterSignal n) = afterSignal n"
    using Suc.prems by (simp add: afterSignal_def signal_def Let_def)
  moreover have "waitQueue (afterSignal n) = []" by (simp add: signal_simps)
  ultimately show ?case using Suc.IH [of "afterSignal n"] by simp
qed

text \<open>
  Claim C1. The Notifier is a single-slot wake-up primitive. A signal that finds no waiter
  sets the pending flag; the next \<open>wait\<close> then resolves at once and clears the flag, and the
  \<open>wait\<close> after it suspends and registers its waiter. In general a \<open>wait\<close> that finds the
  flag set resolves at once, clears the flag and leaves the registered waiters as they
  are; a \<open>wait\<close> that finds it clear suspends and adds its waiter behind the waiters
  already registered, all of which stay registered. A signal resumes every registered
  waiter, in the order of registration, and empties the set, and leaves the flag as it
  was when there were waiters: two waiters registered one after the other behind the
  earlier ones are all resumed by the next signal. Any positive number of signals that
  find no waiter leave the notifier as one signal does: the slot is a boolean, not a
  counter.
\<close>

theorem C1_notifier_single_slot:
  "(waitQueue n = [] \<longrightarrow>
      hasPendingSignal (afterSignal n) \<and>
      fst (wait w (afterSignal n)) \<and>
      \<not> hasPendingSignal (afterWait w (afterSignal n)) \<and>
      waitQueue (afterWait w (afterSignal n)) = [] \<and>
      \<not> fst (wait w' (afterWait w (afterSignal n))) \<and>
      w' \<in> set (waitQueue (afterWait w' (afterWait w (afterSignal n))))) \<and>
   (fst (signal n) = waitQueue n \<and> waitQueue (afterSignal n) = []) \<and>
   (waitQueue n \<noteq> [] \<longrightarrow> hasPendingSignal (afterSignal n) = hasPendingSignal n) \<and>
   (waitQueue n = [] \<longrightarrow> 0 < k \<longrightarrow> signals k n = afterSignal n) \<and>
   (hasPendingSignal n \<longrightarrow>
      fst (wait w n) \<and> \<not> hasPendingSignal (afterWait w n) \<and>
      waitQueue (afterWait w n) = waitQueue n) \<and>
   (\<not> hasPendingSignal n \<longrightarrow>
      \<not> fst (wait w n) \<and> \<not> hasPendingSignal (afterWait w n) \<and>
      waitQueue (afterWait w n) =
        (if w \<in> set (waitQueue n) then waitQueue n else waitQueue n @ [w])) \<and>
   (\<not> hasPendingSignal n \<and> w \<notin> set (waitQueue n) \<and> w' \<notin> set (waitQueue n) \<and> w \<noteq> w' \<longrightarrow>
      waitQueue (afterWait w' (afterWait w n)) = waitQueue n @ [w, w'] \<and>
      fst (signal (afterWait w' (afterWait w n))) = waitQueue n @ [w, w'] \<and>
      waitQueue (afterSignal (afterWait w' (afterWait w n))) = [] \<and>
      \<not> hasPendingSignal (afterSignal (afterWait w' (afterWait w n))))"
proof (intro conjI impI)
  assume "waitQueue n = []" and "0 < k"
  then show "signals k n = afterSignal n"
    using signals_collapse [of n "k - 1"] by simp
qed (auto simp: signal_def afterSignal_def afterWait_def wait_def Let_def)

theorem C1_notifier_single_slot_witness:
  "waitQueue newNotifier = [] \<and>
   \<not> hasPendingSignal newNotifier \<and>
   signals 3 newNotifier = afterSignal newNotifier \<and>
   fst (wait 0 (signals 3 newNotifier)) \<and>
   \<not> fst (wait 1 (afterWait 0 (signals 3 newNotifier))) \<and>
   fst (signal (afterWait 1 (afterWait 0 (signals 3 newNotifier)))) = [1] \<and>
   waitQueue (afterWait 1 (afterWait 0 newNotifier)) = [0, 1] \<and>
   fst (signal (afterWait 1 (afterWait 0 newNotifier))) = [0, 1] \<and>
   waitQueue (afterSignal (afterWait 1 (afterWait 0 newNotifier))) = [] \<and>
   \<not> hasPendingSignal (afterSignal (afterWait 1 (afterWait 0 newNotifier)))"
proof -
  have e: "waitQueue newNotifier = []" and f: "\<not> hasPendingSignal newNotifier"
    by (simp_all add: newNotifier_def)
  note T = C1_notifier_single_slot [of newNotifier 0 1 3]
  from T e have k: "signals 3 newNotifier = afterSignal newNotifier" by simp
  from T e have 1: "fst (wait 0 (afterSignal newNotifier))"
    and 2: "\<not> fst (wait 1 (afterWait 0 (afterSignal newNotifier)))" by blast+
  have 3: "fst (signal (afterWait 1 (afterWait 0 (afterSignal newNotifier)))) = [1]"
    by (simp add: signal_def afterSignal_def afterWait_def wait_def Let_def newNotifier_def)
  have h: "\<not> hasPendingSignal newNotifier \<and> 0 \<notin> set (waitQueue newNotifier) \<and>
    1 \<notin> set (waitQueue newNotifier) \<and> (0::nat) \<noteq> 1"
    using e f by simp
  from T h have "waitQueue (afterWait 1 (afterWait 0 newNotifier)) = waitQueue newNotifier @ [0, 1]"
    and "fst (signal (afterWait 1 (afterWait 0 newNotifier))) = waitQueue newNotifier @ [0, 1]"
    and 6: "waitQueue (afterSignal (afterWait 1 (afterWait 0 newNotifier))) = []"
    and 7: "\<not> hasPendingSignal (afterSignal (afterWait 1 (afterWait 0 newNotifier)))"
    by blast+
  with e have 4: "waitQueue (afterWait 1 (afterWait 0 newNotifier)) = [0, 1]"
    and 5: "fst (signal (afterWait 1 (afterWait 0 newNotifier))) = [0, 1]" by simp_all
  from e f 1 2 3 4 5 6 7 show ?thesis unfolding k by blast
qed

section \<open>Properties of the Scheduler\<close>









lemma notify_frame [simp]:
  "status (notify s) = status s" "queue (notify s) = queue s" "slog (notify s) = slog s"
  by (simp_all add: notify_def split: prod.splits)

lemma enqueue_frame [simp]:
  "queue (enqueue t p l s) = push t l p (queue s)" "slog (enqueue t p l s) = slog s"
  "status (enqueue t p l s) = status s"
  by (simp_all add: enqueue_def)


lemmas sched_eval =
  start_def resume_def loopHead_def setPc_def tickBegin_def tickEnd_def getNext_def LANES_def PRIOS_def
  enqueue_def stop_def notify_def signal_def wait_def push_def shift_def resumeWaiter_def
  newScheduler_def newNotifier_def emptyQueue_def Let_def started_def


lemma setPc_frame [simp]:
  "status (setPc i cs) = status (snd cs)" "queue (setPc i cs) = queue (snd cs)"
  "slog (setPc i cs) = slog (snd cs)"
  by (simp_all add: setPc_def)

lemma loopHead_stopped [simp]: "status s = Stopped \<Longrightarrow> loopHead s = (Exited, s)"
  by (simp add: loopHead_def)

lemma started_tickEnd [simp]: "started (tickEnd t l p s) = started s"
  by (simp add: started_def tickEnd_def)

lemma resume_stopped:
  assumes "status s = Stopped"
  shows "status (resume i s) = Stopped \<and> started (resume i s) = started s \<and>
         queue (resume i s) = queue s"
proof (cases "i < length (loops s)")
  case False
  with assms show ?thesis by (simp add: resume_def)
next
  case True
  with assms show ?thesis
    by (cases "loops s ! i") (simp_all add: resume_def tickEnd_def started_def)
qed

lemma step_stopped:
  assumes "status s = Stopped"
  shows "status (step a s) = Stopped \<and> started (step a s) = started s \<and>
         prefix (queue s l p) (queue (step a s) l p)"
proof (cases a)
  case (Enqueue t p' l')
  with assms show ?thesis by (simp add: started_def push_def)
next
  case Stop
  with assms show ?thesis by (simp add: stop_def started_def)
next
  case Start
  with assms show ?thesis by (simp add: start_def)
next
  case (Resume i)
  with resume_stopped [OF assms, of i] show ?thesis by simp
qed

lemma exec_stopped:
  "status s = Stopped \<Longrightarrow>
   status (exec as s) = Stopped \<and> started (exec as s) = started s \<and>
   prefix (queue s l p) (queue (exec as s) l p)"
proof (induction as arbitrary: s)
  case Nil
  then show ?case by simp
next
  case (Cons a as)
  from step_stopped [OF Cons.prems, of a l p]
  have 1: "status (step a s) = Stopped" and 2: "started (step a s) = started s"
    and 3: "prefix (queue s l p) (queue (step a s) l p)" by simp_all
  from Cons.IH [OF 1] 2 3 show ?case by (auto intro: prefix_order.trans)
qed

lemma length_resumeWaiters [simp]: "length (foldr resumeWaiter ws ls) = length ls"
  by (induction ws) (simp_all add: resumeWaiter_def)

lemma nth_resumeWaiters:
  "i < length ls \<Longrightarrow>
   foldr resumeWaiter ws ls ! i = (if i \<in> set ws \<and> ls ! i = Waiting then Woken else ls ! i)"
  by (induction ws) (auto simp: resumeWaiter_def nth_list_update)

lemma loops_stop:
  "length (loops (stop s)) = length (loops s)"
  "i < length (loops s) \<Longrightarrow>
   loops (stop s) ! i =
     (if i \<in> set (waitQueue (notifier s)) \<and> loops s ! i = Waiting then Woken else loops s ! i)"
  by (simp_all add: stop_def notify_def signal_def Let_def nth_resumeWaiters)

lemma stop_frame [simp]:
  "status (stop s) = Stopped" "queue (stop s) = queue s" "started (stop s) = started s"
  by (simp_all add: stop_def started_def)

lemma woken_exits:
  assumes "status s = Stopped" and "i < length (loops s)" and "loops s ! i = Woken"
  shows "loops (resume i s) ! i = Exited"
  using assms by (simp add: resume_def setPc_def)

text \<open>
  Claim C5. The status \<open>Stopped\<close> is terminal. \<open>start\<close> on a stopped scheduler fails with
  the restart error. After \<open>stop\<close>, whatever happens next and in whatever order (enqueues,
  further stops and starts, any activation of the run loop resumed), the status stays
  \<open>Stopped\<close>, no further task is started, and no queued task leaves its cell. An
  activation that a signal has woken, or that \<open>stop\<close> itself wakes, finds the status
  changed when it resumes: it does not set the status back to running and leaves the
  loop without another tick.
\<close>

theorem C5_stopped_is_terminal:
  "(status s = Stopped \<longrightarrow> start s = Inl CannotRestart) \<and>
   status (stop s) = Stopped \<and>
   start (stop s) = Inl CannotRestart \<and>
   status (exec as (stop s)) = Stopped \<and>
   started (exec as (stop s)) = started s \<and>
   (\<forall>l p. prefix (queue s l p) (queue (exec as (stop s)) l p)) \<and>
   (i < length (loops s) \<and>
    (loops s ! i = Woken \<or> loops s ! i = Waiting \<and> i \<in> set (waitQueue (notifier s))) \<longrightarrow>
      loops (stop s) ! i = Woken \<and>
      loops (resume i (stop s)) ! i = Exited)"
proof (intro conjI impI allI)
  show "start s = Inl CannotRestart" if "status s = Stopped"
    using that by (simp add: start_def)
  show "status (stop s) = Stopped" by simp
  show "start (stop s) = Inl CannotRestart" by (simp add: start_def)
  have st: "status (stop s) = Stopped" by simp
  show "status (exec as (stop s)) = Stopped"
    using exec_stopped [OF st] by simp
  show "started (exec as (stop s)) = started s"
    using exec_stopped [OF st, of as] by simp
  show "prefix (queue s l p) (queue (exec as (stop s)) l p)" for l p
    using exec_stopped [OF st, of as l p] by simp
next
  assume a: "i < length (loops s) \<and>
    (loops s ! i = Woken \<or> loops s ! i = Waiting \<and> i \<in> set (waitQueue (notifier s)))"
  then show w: "loops (stop s) ! i = Woken"
    by (auto simp: loops_stop)
  from a have "i < length (loops (stop s))" by (simp add: loops_stop)
  with w show "loops (resume i (stop s)) ! i = Exited"
    by (intro woken_exits) simp_all
qed

lemma wokenWithWork_eval:
  "wokenWithWork =
     \<lparr>status = Idle, queue = emptyQueue(Domain := (emptyQueue Domain)(High := [taskT])),
      notifier = \<lparr>waitQueue = [], hasPendingSignal = False\<rparr>, loops = [Woken], slog = []\<rparr>"
  by (simp add: wokenWithWork_def sched_eval)

theorem C5_stopped_is_terminal_witness:
  "loops wokenWithWork ! 0 = Woken \<and>
   queue wokenWithWork Domain High = [taskT] \<and>
   start (stop wokenWithWork) = Inl CannotRestart \<and>
   status (exec [Resume 0, Start, Resume 0] (stop wokenWithWork)) = Stopped \<and>
   started (exec [Resume 0, Start, Resume 0] (stop wokenWithWork)) = [] \<and>
   prefix [taskT] (queue (exec [Resume 0, Start, Resume 0] (stop wokenWithWork)) Domain High) \<and>
   loops (resume 0 (stop wokenWithWork)) ! 0 = Exited"
proof -
  have h: "0 < length (loops wokenWithWork) \<and>
    (loops wokenWithWork ! 0 = Woken \<or>
     loops wokenWithWork ! 0 = Waiting \<and> 0 \<in> set (waitQueue (notifier wokenWithWork)))"
    by (simp add: wokenWithWork_eval)
  have q: "queue wokenWithWork Domain High = [taskT]" and s0: "started wokenWithWork = []"
    by (simp_all add: wokenWithWork_eval started_def)
  note T = C5_stopped_is_terminal [of wokenWithWork "[Resume 0, Start, Resume 0]" 0]
  from T have a: "start (stop wokenWithWork) = Inl CannotRestart" by blast
  from T have b: "status (exec [Resume 0, Start, Resume 0] (stop wokenWithWork)) = Stopped"
    by blast
  from T have "started (exec [Resume 0, Start, Resume 0] (stop wokenWithWork)) =
    started wokenWithWork" by blast
  with s0 have c: "started (exec [Resume 0, Start, Resume 0] (stop wokenWithWork)) = []"
    by simp
  from T have "prefix (queue wokenWithWork Domain High)
    (queue (exec [Resume 0, Start, Resume 0] (stop wokenWithWork)) Domain High)"
    by blast
  with q have d: "prefix [taskT]
    (queue (exec [Resume 0, Start, Resume 0] (stop wokenWithWork)) Domain High)"
    by simp
  from T h have e: "loops (resume 0 (stop wokenWithWork)) ! 0 = Exited" by blast
  have w: "loops wokenWithWork ! 0 = Woken" by (simp add: wokenWithWork_eval)
  from w q a b c d e show ?thesis by blast
qed

section \<open>Properties of the model-call adapter\<close>

lemma gather_concat: "gather chunks buf = buf @ concat chunks"
  by (induction chunks arbitrary: buf) simp_all

lemma streamTokens_append: "streamTokens (xs @ ys) = streamTokens xs @ streamTokens ys"
  by (induction xs rule: streamTokens.induct) simp_all

lemma streamTokens_streamChunks:
  "streamChunks target reqId chunks n = (ds, m) \<Longrightarrow>
   streamTokens ds = chunks \<and> m = n + length chunks"
proof (induction chunks arbitrary: n ds m)
  case Nil
  then show ?case by simp
next
  case (Cons chunk rest)
  obtain ds' m' where r: "streamChunks target reqId rest (n + 1) = (ds', m')"
    by (cases "streamChunks target reqId rest (n + 1)")
  from Cons.IH [OF r] Cons.prems r show ?case by auto
qed

text \<open>
  Claim C8. For a prompt whose generation yields a finite list of chunks without failing,
  the tokens of the \<open>stream-token\<close> events that \<open>run\<close> dispatches, concatenated in order,
  are the string \<open>runOnce\<close> resolves to, namely the concatenation of the chunks; and
  \<open>runOnce\<close> dispatches no per-token event, whether the generation succeeds or not.
\<close>

theorem C8_stream_tokens_equal_buffer:
  "(generate prompt = (chunks, None) \<longrightarrow>
      runOnceResult generate prompt target' reqId' =
        Inr (concat (streamTokens (runDispatches generate prompt target reqId))) \<and>
      streamTokens (runDispatches generate prompt target reqId) = chunks) \<and>
   filter isPerToken (runOnceDispatches generate prompt target' reqId') = []"
proof (intro conjI impI)
  assume g: "generate prompt = (chunks, None)"
  then show t: "streamTokens (runDispatches generate prompt target reqId) = chunks"
    by (auto simp: runDispatches_def run_def runTask_def streamTokens_append
        split: prod.splits dest: streamTokens_streamChunks)
  from g show "runOnceResult generate prompt target' reqId' =
        Inr (concat (streamTokens (runDispatches generate prompt target reqId)))"
    unfolding t by (simp add: runOnceResult_def runOnce_def runOnceTask_def gather_concat)
next
  show "filter isPerToken (runOnceDispatches generate prompt target' reqId') = []"
    by (simp add: runOnceDispatches_def runOnce_def split: sum.splits)
qed

theorem C8_stream_tokens_equal_buffer_witness:
  "twoChunks ''p'' = ([''{\"a\":'', '' 1}''], None) \<and>
   runOnceResult twoChunks ''p'' ''agent#1'' ''llm-once-1'' = Inr ''{\"a\": 1}'' \<and>
   streamTokens (runDispatches twoChunks ''p'' ''agent#1'' ''llm-2'') = [''{\"a\":'', '' 1}''] \<and>
   runOnceDispatches twoChunks ''p'' ''agent#1'' ''llm-once-1'' =
     [Shown (LlmStart ''agent#1'' ''llm-once-1'' ''p''),
      Shown (LlmEnd ''agent#1'' ''llm-once-1'' (Some 2))]"
proof -
  have g: "twoChunks ''p'' = ([''{\"a\":'', '' 1}''], None)" by (simp add: twoChunks_def)
  note T = C8_stream_tokens_equal_buffer [of twoChunks "''p''" "[''{\"a\":'', '' 1}'']"
      "''agent#1''" "''llm-once-1''" "''agent#1''" "''llm-2''"]
  from T g have a: "streamTokens (runDispatches twoChunks ''p'' ''agent#1'' ''llm-2'') = [''{\"a\":'', '' 1}'']"
    by blast
  from T g have "runOnceResult twoChunks ''p'' ''agent#1'' ''llm-once-1'' =
    Inr (concat (streamTokens (runDispatches twoChunks ''p'' ''agent#1'' ''llm-2'')))" by blast
  with a have b: "runOnceResult twoChunks ''p'' ''agent#1'' ''llm-once-1'' = Inr ''{\"a\": 1}''"
    by simp
  have c: "runOnceDispatches twoChunks ''p'' ''agent#1'' ''llm-once-1'' =
     [Shown (LlmStart ''agent#1'' ''llm-once-1'' ''p''),
      Shown (LlmEnd ''agent#1'' ''llm-once-1'' (Some 2))]"
    by (simp add: runOnceDispatches_def runOnce_def runOnceTask_def twoChunks_def roughTokens_def
        isSpace_def)
  from g a b c show ?thesis by blast
qed

section \<open>Properties of the filesystem port\<close>

lemmas path_eval =
  resolve_def resolvedSegs_def segments_def absolutePath_def joinPath_def safe_def fsRun_def
  withinRoot_def failed_def contentOf_def obligingFs_def Let_def

text \<open>
  Claim C7 fails on \<open>write\<close>. With root \<open>/work\<close> the path \<open>../etc/cron.d/job\<close> resolves
  to \<open>/etc/cron.d/job\<close>, outside the root. The operation is rejected, but the parent
  directory \<open>/etc/cron.d\<close> has been created before the check.
\<close>

theorem C7_write_creates_directory_outside_root:
  "resolve ''/'' (joinPath [''/work'', ''../etc/cron.d/job'']) = ''/etc/cron.d/job'' \<and>
   \<not> withinRoot ''/'' ''/work'' ''/etc/cron.d/job'' \<and>
   fsRun ''/'' ''/work'' obligingFs
     \<lparr>argOp = ''write'', argPath = ''../etc/cron.d/job'', argContent = Some ''x''\<rparr> =
     ([MkdirP ''/etc/cron.d''], \<lparr>outOk = False, outData = ''path escapes workspace''\<rparr>) \<and>
   touched (fst (fsRun ''/'' ''/work'' obligingFs
     \<lparr>argOp = ''write'', argPath = ''../etc/cron.d/job'', argContent = Some ''x''\<rparr>)) =
     [''/etc/cron.d''] \<and>
   \<not> withinRoot ''/'' ''/work'' ''/etc/cron.d''"
  by (simp add: path_eval)

text \<open>
  The check is a comparison of strings, so a directory beside the root whose name extends
  the root's name passes it: the write below lands outside \<open>/work\<close> and reports success.
\<close>

lemma fsRun_sibling_accepted:
  "fsRun ''/'' ''/work'' obligingFs
     \<lparr>argOp = ''write'', argPath = ''../workshop/f'', argContent = Some ''x''\<rparr> =
     ([MkdirP ''/workshop'', WriteFile ''/workshop/f'' ''x''], \<lparr>outOk = True, outData = ''ok''\<rparr>) \<and>
   \<not> withinRoot ''/'' ''/work'' ''/workshop/f''"
  by (simp add: path_eval)

text \<open>
  \<open>read\<close> and \<open>append\<close> check first: when the check fails they make no call at all.
\<close>

lemma fsRun_read_append_rejected:
  assumes "argOp args = ''read'' \<or> argOp args = ''append''"
    and "\<not> prefix (resolve cwd root) (resolve cwd (joinPath [root, argPath args]))"
  shows "fsRun cwd root io args = ([], \<lparr>outOk = False, outData = ''path escapes workspace''\<rparr>)"
  using assms by (auto simp: fsRun_def safe_def failed_def Let_def)

section \<open>Properties of the BuilderAgent\<close>

subsection \<open>One round of the loop, branch by branch\<close>

lemma loop_interrupted:
  "interrupted s \<Longrightarrow>
   loop env s = emitPlanningStop RInterrupted None (onUpdate (StatusEv SInterrupted) s)"
  by (subst loop.simps) simp

lemma loop_max_steps:
  "\<not> interrupted s \<Longrightarrow> MAX_STEPS \<le> steps s \<Longrightarrow>
   loop env s = emitPlanningStop RMaxSteps (Some maxStepsDetail) (onUpdate (StatusEv SMaxSteps) s)"
  by (subst loop.simps) simp

lemma loop_llm_rejects:
  "\<not> interrupted s \<Longrightarrow> steps s < MAX_STEPS \<Longrightarrow>
   callLlm env (roundPrompt s) (s\<lparr>steps := steps s + 1\<rparr>) = (Inl e, s2) \<Longrightarrow>
   loop env s =
     emitPlanningStop RError (Some (messageOf e)) (onUpdate (ErrorEv PPlanner (messageOf e)) s2)"
  by (subst loop.simps) (simp add: roundPrompt_def Let_def)

lemma loop_repair_fails:
  "\<not> interrupted s \<Longrightarrow> steps s < MAX_STEPS \<Longrightarrow>
   callLlm env (roundPrompt s) (s\<lparr>steps := steps s + 1\<rparr>) = (Inr raw, s2) \<Longrightarrow>
   parseOrRepair env raw s2 = (Inl e, s3) \<Longrightarrow>
   loop env s =
     emitPlanningStop RError (Some (''planner output invalid: '' @ messageOf e))
       (onUpdate (ErrorEv PPlanner (''planner output invalid: '' @ messageOf e)) s3)"
  by (subst loop.simps) (simp add: roundPrompt_def Let_def)

lemma loop_turn:
  "\<not> interrupted s \<Longrightarrow> steps s < MAX_STEPS \<Longrightarrow>
   callLlm env (roundPrompt s) (s\<lparr>steps := steps s + 1\<rparr>) = (Inr raw, s2) \<Longrightarrow>
   parseOrRepair env raw s2 = (Inr turn, s3) \<Longrightarrow>
   loop env s =
     handleMessage env turn (s3\<lparr>convo := convo s3 @ [(Assistant, stringify env turn)]\<rparr>)"
  by (subst loop.simps) (simp add: roundPrompt_def Let_def)

subsection \<open>How a state evolves while the loop runs\<close>

lemma evolves_trans:
  assumes "evolves a b" and "evolves b c"
  shows "evolves a c"
  using assms(2, 1) by (induction rule: evolves.induct) (auto intro: evolves.intros)

lemma evolves_callLlm: "evolves s (snd (callLlm env p s))"
  by (auto simp: callLlm_def intro: evolves.intros)

lemma evolves_ask: "evolves s (snd (ask env h s))"
proof -
  let ?t = "s\<lparr>convo := convo s @ [(User, repairMessage h)]\<rparr>"
  have "evolves s ?t" by (rule evolves.entry [OF evolves.same])
  then have "evolves s (?t\<lparr>prompts := prompts ?t @
      [render (convo ?t) @ nl @ nl @ repairInstruction]\<rparr>)"
    by (rule evolves.called)
  then show ?thesis by (simp add: ask_def callLlm_def Let_def)
qed

lemma evolves_parseOrRepair: "evolves s (snd (parseOrRepair env raw s))"
  unfolding parseOrRepair_def
  by (rule parseOrRepairFrom_rel [where R = evolves])
     (auto intro: evolves.same evolves_trans evolves_ask)

lemma evolves_loop_handleMessage:
  "evolves s (loop env s)" "evolves s (handleMessage env m s)"
proof (induction env s and env m s rule: loop_handleMessage.induct)
  case (1 env s)
  show ?case
  proof (cases "interrupted s")
    case True
    then show ?thesis
      by (auto simp: loop_interrupted intro!: evolves.stopped evolves.update evolves.same)
  next
    case ni: False
    show ?thesis
    proof (cases "MAX_STEPS \<le> steps s")
      case True
      with ni show ?thesis
        by (auto simp: loop_max_steps intro!: evolves.stopped evolves.update evolves.same)
    next
      case False
      then have lt: "steps s < MAX_STEPS" by simp
      let ?s1 = "s\<lparr>steps := steps s + 1\<rparr>"
      obtain r s2 where c: "callLlm env (roundPrompt s) ?s1 = (r, s2)"
        by (cases "callLlm env (roundPrompt s) ?s1")
      have "evolves s ?s1" using evolves.counted [OF evolves.same, of s] by simp
      moreover have "evolves ?s1 s2" using evolves_callLlm [of ?s1 env "roundPrompt s"] c by simp
      ultimately have e2: "evolves s s2" by (rule evolves_trans)
      show ?thesis
      proof (cases r)
        case (Inl e)
        with c have "loop env s = emitPlanningStop RError (Some (messageOf e))
            (onUpdate (ErrorEv PPlanner (messageOf e)) s2)"
          using loop_llm_rejects [OF ni lt] by simp
        with e2 show ?thesis by (auto intro!: evolves.stopped evolves.update)
      next
        case (Inr raw)
        obtain r' s3 where p: "parseOrRepair env raw s2 = (r', s3)"
          by (cases "parseOrRepair env raw s2")
        have "evolves s2 s3" using evolves_parseOrRepair [of s2 env raw] p by simp
        with e2 have e3: "evolves s s3" by (rule evolves_trans)
        show ?thesis
        proof (cases r')
          case (Inl e)
          with c Inr p have "loop env s =
            emitPlanningStop RError (Some (''planner output invalid: '' @ messageOf e))
              (onUpdate (ErrorEv PPlanner (''planner output invalid: '' @ messageOf e)) s3)"
            using loop_repair_fails [OF ni lt] by simp
          with e3 show ?thesis by (auto intro!: evolves.stopped evolves.update)
        next
          case turn: (Inr turn)
          let ?s4 = "s3\<lparr>convo := convo s3 @ [(Assistant, stringify env turn)]\<rparr>"
          from c Inr p turn have l: "loop env s = handleMessage env turn ?s4"
            using loop_turn [OF ni lt] by simp
          have "evolves ?s4 (handleMessage env turn ?s4)"
            using "1.IH" [OF ni False refl refl refl _ refl, of raw turn] c Inr p turn
            by (simp add: roundPrompt_def)
          moreover from e3 have "evolves s ?s4" by (rule evolves.entry)
          ultimately show ?thesis unfolding l by (rule evolves_trans [rotated])
        qed
      qed
    qed
  qed
next
  case (2 env st goal say s)
  have "evolves s (onUpdate (StepEv st goal (truthy say)) s)"
    by (intro evolves.update evolves.same) simp
  with 2 show ?case by (auto intro: evolves_trans)
next
  case (3 env st toolcallId tool args say s)
  show ?case by (auto intro!: evolves.effect evolves.update evolves.same)
next
  case (4 env st kind content meta say s)
  have "evolves s (onUpdate (DeliverableEv st kind content meta (truthy say)) s)"
    by (intro evolves.update evolves.same) simp
  with 4 show ?case by (auto intro: evolves_trans)
next
  case (5 env st summary deliverables s)
  show ?case by (auto intro!: evolves.stopped evolves.update evolves.same)
qed

lemma evolves_frame:
  assumes "evolves s t"
  shows "ident t = ident s" and "interrupted t = interrupted s"
    and "prefix (updates s) (updates t)" and "prefix (convo s) (convo t)"
    and "prefix (prompts s) (prompts t)" and "prefix (effects s) (effects t)"
  using assms
  by (induction rule: evolves.induct)
     (auto simp: onUpdate_def submitEffect_def emitPlanningStop_def split: option.splits
        intro: prefix_order.trans)

subsection \<open>Planning-stop events and user turns\<close>

lemma openAfter_append: "openAfter a (xs @ ys) = openAfter (openAfter a xs) ys"
  by (induction a xs rule: openAfter.induct) simp_all

lemma stopsBracketed_append:
  "stopsBracketed a (xs @ ys) = (stopsBracketed a xs \<and> stopsBracketed (openAfter a xs) ys)"
  by (induction a xs rule: stopsBracketed.induct) auto

lemma plain_openAfter: "plain e \<Longrightarrow> openAfter a [e] = a"
  by (cases e) simp_all

lemma plain_stopsBracketed: "plain e \<Longrightarrow> stopsBracketed a [e]"
  by (cases e) simp_all

lemma consistent_onUpdate: "consistent s \<Longrightarrow> plain e \<Longrightarrow> consistent (onUpdate e s)"
  by (auto simp: consistent_def onUpdate_def stopsBracketed_append openAfter_append
      plain_openAfter plain_stopsBracketed split: option.splits)

lemma consistent_emitPlanningStop: "consistent s \<Longrightarrow> consistent (emitPlanningStop reason detail s)"
  by (auto simp: consistent_def emitPlanningStop_def onUpdate_def stopsBracketed_append
      openAfter_append split: option.splits)

lemma consistent_evolves:
  assumes "evolves s t" and "consistent s"
  shows "consistent t"
  using assms
proof (induction rule: evolves.induct)
  case (update s t e)
  then show ?case by (simp add: consistent_onUpdate)
next
  case (stopped s t reason detail)
  then show ?case by (simp add: consistent_emitPlanningStop)
qed (auto simp: consistent_def submitEffect_def split: option.splits)

lemma consistent_loop: "consistent s \<Longrightarrow> consistent (loop env s)"
  using consistent_evolves [OF evolves_loop_handleMessage(1)] .

lemma consistent_on: "consistent s \<Longrightarrow> consistent (on env e s)"
proof (cases e)
  case (UserInput i target reqId)
  assume c: "consistent s"
  let ?s3 = "onUpdate (PlanningStart (ident s) reqId) (onUpdate (UserTurn (ident s) reqId i)
    (s\<lparr>currentReqId := Some reqId, convo := convo s @ [(User, i)], steps := 0,
       interrupted := False\<rparr>))"
  from c have "consistent ?s3"
    by (auto simp: consistent_def onUpdate_def stopsBracketed_append openAfter_append
        split: option.splits if_splits)
  then have "consistent (loop env ?s3)" by (rule consistent_loop)
  with c UserInput show ?thesis by (simp add: Let_def onUpdate_def)
next
  case (ToolResult target tool reqId ok data)
  assume c: "consistent s"
  let ?s2 = "onUpdate (Observation tool ok (take 2000 data))
    (s\<lparr>convo := convo s @ [(User, ''TOOL('' @ tool @ '') -> '' @
       (if ok then ''ok'' else ''error'') @ nl @ take 2000 data)]\<rparr>)"
  from c have "consistent ?s2"
    by (auto simp: consistent_def onUpdate_def stopsBracketed_append openAfter_append
        split: option.splits)
  then have "consistent (loop env ?s2)" by (rule consistent_loop)
  with c ToolResult show ?thesis by (simp add: Let_def)
next
  case (LlmError err target reqId)
  assume "consistent s"
  with LlmError show ?thesis
    by (simp add: consistent_emitPlanningStop consistent_onUpdate)
qed simp_all

lemma consistent_handle: "consistent s \<Longrightarrow> consistent (handle env i s)"
proof (cases i)
  case (Event e)
  then show "consistent s \<Longrightarrow> ?thesis" by (simp add: consistent_on)
next
  case Interrupt
  then show "consistent s \<Longrightarrow> ?thesis"
    by (auto simp: consistent_def interrupt_def split: option.splits)
qed

lemma consistent_handleAll: "consistent s \<Longrightarrow> consistent (handleAll env inputs s)"
  by (induction inputs arbitrary: s) (simp_all add: consistent_handle)

lemma consistent_newAgent: "consistent (newAgent i sys)"
  by (simp add: consistent_def newAgent_def)

lemma bracketed_count:
  "stopsBracketed a es \<Longrightarrow>
   length (filter isPlanningStop es) \<le>
     length (filter isUserTurn es) + (if a = None then 0 else 1)"
proof (induction a es rule: stopsBracketed.induct)
  case (3 a agentId r reason detail es)
  then show ?case by (auto split: if_splits)
qed (auto split: if_splits)

text \<open>
  Claim C9. \<open>emitPlanningStop\<close> does nothing when no request is active; when one is, it
  emits exactly one planning-stop carrying that request's id and clears the current
  request, so a second call right after it does nothing. Whatever events and interrupts
  a new agent handles, every planning-stop it has emitted closes the user turn that is
  open at that point, with that turn's request id: at most one planning-stop per user
  turn and none outside a turn.
\<close>

theorem C9_one_planning_stop_per_turn:
  "(truthy (currentReqId s) = None \<longrightarrow> emitPlanningStop reason detail s = s) \<and>
   (truthy (currentReqId s) = Some r \<longrightarrow>
      updates (emitPlanningStop reason detail s) =
        updates s @ [PlanningStop (ident s) r reason (truthy detail)] \<and>
      currentReqId (emitPlanningStop reason detail s) = None) \<and>
   emitPlanningStop reason' detail' (emitPlanningStop reason detail s) =
     emitPlanningStop reason detail s \<and>
   stopsBracketed None (updates (handleAll env inputs (newAgent i sys))) \<and>
   length (filter isPlanningStop (updates (handleAll env inputs (newAgent i sys)))) \<le>
     length (filter isUserTurn (updates (handleAll env inputs (newAgent i sys))))"
proof (intro conjI impI)
  have c: "consistent (handleAll env inputs (newAgent i sys))"
    by (rule consistent_handleAll [OF consistent_newAgent])
  then show b: "stopsBracketed None (updates (handleAll env inputs (newAgent i sys)))"
    by (simp add: consistent_def)
  from bracketed_count [OF b]
  show "length (filter isPlanningStop (updates (handleAll env inputs (newAgent i sys)))) \<le>
     length (filter isUserTurn (updates (handleAll env inputs (newAgent i sys))))"
    by simp
qed (auto simp: emitPlanningStop_def onUpdate_def split: option.splits)

theorem C9_one_planning_stop_per_turn_witness:
  "truthy (currentReqId idleAgent) = None \<and>
   emitPlanningStop RFinal None idleAgent = idleAgent \<and>
   truthy (currentReqId busyAgent) = Some ''user-1'' \<and>
   updates (emitPlanningStop RFinal None busyAgent) =
     [PlanningStop ''agent#1'' ''user-1'' RFinal None] \<and>
   emitPlanningStop RError (Some ''late'') (emitPlanningStop RFinal None busyAgent) =
     emitPlanningStop RFinal None busyAgent \<and>
   stopsBracketed None (updates (handleAll neverValid
     [Event (UserInput ''hi'' ''agent#1'' ''user-1''), Interrupt,
      Event (LlmError ''boom'' ''agent#1'' ''llm-1'')] idleAgent))"
proof -
  have n: "truthy (currentReqId idleAgent) = None"
    by (simp add: idleAgent_def newAgent_def)
  have b: "truthy (currentReqId busyAgent) = Some ''user-1''"
    by (simp add: busyAgent_def)
  note T1 = C9_one_planning_stop_per_turn [of idleAgent RFinal None "''user-1''" RError
      "Some ''late''" neverValid
      "[Event (UserInput ''hi'' ''agent#1'' ''user-1''), Interrupt,
        Event (LlmError ''boom'' ''agent#1'' ''llm-1'')]"
      "''agent#1''" "''You are a self-building agent.''"]
  note T2 = C9_one_planning_stop_per_turn [of busyAgent RFinal None "''user-1''" RError
      "Some ''late''" neverValid "[]" "''agent#1''" "''You are a self-building agent.''"]
  from T1 n have 1: "emitPlanningStop RFinal None idleAgent = idleAgent" by blast
  from T2 b have "updates (emitPlanningStop RFinal None busyAgent) =
    updates busyAgent @ [PlanningStop (ident busyAgent) ''user-1'' RFinal (truthy None)]"
    by blast
  then have 2: "updates (emitPlanningStop RFinal None busyAgent) =
     [PlanningStop ''agent#1'' ''user-1'' RFinal None]"
    by (simp add: busyAgent_def idleAgent_def newAgent_def)
  from T2 have 3: "emitPlanningStop RError (Some ''late'') (emitPlanningStop RFinal None busyAgent) =
     emitPlanningStop RFinal None busyAgent" by blast
  from T1 have 4: "stopsBracketed None (updates (handleAll neverValid
     [Event (UserInput ''hi'' ''agent#1'' ''user-1''), Interrupt,
      Event (LlmError ''boom'' ''agent#1'' ''llm-1'')] idleAgent))"
    unfolding idleAgent_def by blast
  from n 1 b 2 3 4 show ?thesis by blast
qed

subsection \<open>A round whose answers never validate\<close>










subsection \<open>A turn whose answers are all steps\<close>

lemma maxStepsDetail_nonempty: "maxStepsDetail \<noteq> []"
  by (simp add: maxStepsDetail_def)

lemma loop_always_step:
  assumes ans: "answersStep env target n0"
  shows "MAX_STEPS - steps s = k \<Longrightarrow> \<not> interrupted s \<Longrightarrow> steps s \<le> MAX_STEPS \<Longrightarrow>
     ident s = target \<Longrightarrow> length (prompts s) = n0 + steps s \<Longrightarrow>
     \<exists>evs. length evs = k \<and> list_all isStepEv evs \<and>
       updates (loop env s) =
         updates s @ evs @ StatusEv SMaxSteps #
           (case truthy (currentReqId s) of
              None \<Rightarrow> []
            | Some r \<Rightarrow> [PlanningStop target r RMaxSteps (Some maxStepsDetail)]) \<and>
       length (prompts (loop env s)) = n0 + MAX_STEPS \<and>
       steps (loop env s) = MAX_STEPS \<and>
       effects (loop env s) = effects s"
proof (induction k arbitrary: s)
  case 0
  then have m: "MAX_STEPS \<le> steps s" and e: "steps s = MAX_STEPS" by simp_all
  have "loop env s =
    emitPlanningStop RMaxSteps (Some maxStepsDetail) (onUpdate (StatusEv SMaxSteps) s)"
    by (rule loop_max_steps [OF "0.prems"(2) m])
  with 0 e show ?case
    by (auto simp: emitPlanningStop_def onUpdate_def maxStepsDetail_nonempty split: option.splits)
next
  case (Suc k)
  then have lt: "steps s < MAX_STEPS" by simp
  note ni = Suc.prems(2)
  let ?s1 = "s\<lparr>steps := steps s + 1\<rparr>"
  let ?s2 = "?s1\<lparr>prompts := prompts ?s1 @ [roundPrompt s]\<rparr>"
  from ans lt obtain raw st goal say where
    r: "llmOnce env (n0 + steps s) (roundPrompt s) target = Inr raw"
    and v: "parseTurn env raw = Inr (MStep st goal say)"
    unfolding answersStep_def by (metis le_add1 add_less_cancel_left)
  have c: "callLlm env (roundPrompt s) ?s1 = (Inr raw, ?s2)"
    using r Suc.prems by (simp add: callLlm_def)
  have p: "parseOrRepair env raw ?s2 = (Inr (MStep st goal say), ?s2)"
    unfolding parseOrRepair_def by (rule parseOrRepairFrom_valid [OF _ v]) simp
  let ?s4 = "?s2\<lparr>convo := convo ?s2 @ [(Assistant, stringify env (MStep st goal say))]\<rparr>"
  let ?s5 = "onUpdate (StepEv st goal (truthy say)) ?s4"
  have l: "loop env s = loop env ?s5"
    using loop_turn [OF ni lt c p] by simp
  have "\<exists>evs. length evs = k \<and> list_all isStepEv evs \<and>
       updates (loop env ?s5) =
         updates ?s5 @ evs @ StatusEv SMaxSteps #
           (case truthy (currentReqId ?s5) of
              None \<Rightarrow> []
            | Some r \<Rightarrow> [PlanningStop target r RMaxSteps (Some maxStepsDetail)]) \<and>
       length (prompts (loop env ?s5)) = n0 + MAX_STEPS \<and>
       steps (loop env ?s5) = MAX_STEPS \<and>
       effects (loop env ?s5) = effects ?s5"
    using Suc.prems lt by (intro Suc.IH) (simp_all add: onUpdate_def)
  then obtain evs where evs: "length evs = k" "list_all isStepEv evs"
    "updates (loop env ?s5) =
         updates ?s5 @ evs @ StatusEv SMaxSteps #
           (case truthy (currentReqId ?s5) of
              None \<Rightarrow> []
            | Some r \<Rightarrow> [PlanningStop target r RMaxSteps (Some maxStepsDetail)])"
    "length (prompts (loop env ?s5)) = n0 + MAX_STEPS"
    "steps (loop env ?s5) = MAX_STEPS" "effects (loop env ?s5) = effects ?s5"
    by blast
  show ?case
  proof (intro exI [of _ "StepEv st goal (truthy say) # evs"] conjI)
    show "updates (loop env s) =
      updates s @ (StepEv st goal (truthy say) # evs) @ StatusEv SMaxSteps #
        (case truthy (currentReqId s) of
           None \<Rightarrow> []
         | Some r \<Rightarrow> [PlanningStop target r RMaxSteps (Some maxStepsDetail)])"
      unfolding l evs(3) by (simp add: onUpdate_def)
  qed (use evs in \<open>simp_all add: l onUpdate_def\<close>)
qed

text \<open>
  A user turn that nothing else interrupts: with a request id that is not empty and model
  answers that are all valid step messages, the agent resets the step counter, runs
  exactly \<open>MAX_STEPS = 12\<close> planning rounds with one model call and one step event each,
  and then stops without a further call, with the status event \<open>max-steps\<close> and a
  planning-stop with reason \<open>max-steps\<close> for the turn's request.
\<close>

lemma undisturbed_turn_step_budget:
  "(target = ident s \<and> reqId \<noteq> [] \<and> answersStep env (ident s) (length (prompts s)) \<longrightarrow>
      (\<exists>evs. length evs = MAX_STEPS \<and> list_all isStepEv evs \<and>
         updates (on env (UserInput input target reqId) s) =
           updates s @ UserTurn (ident s) reqId input # PlanningStart (ident s) reqId # evs @
             [StatusEv SMaxSteps, PlanningStop (ident s) reqId RMaxSteps (Some maxStepsDetail)]) \<and>
      length (prompts (on env (UserInput input target reqId) s)) =
        length (prompts s) + MAX_STEPS \<and>
      steps (on env (UserInput input target reqId) s) = MAX_STEPS \<and>
      effects (on env (UserInput input target reqId) s) = effects s) \<and>
   MAX_STEPS = 12"
proof (intro conjI impI)
  assume h: "target = ident s \<and> reqId \<noteq> [] \<and> answersStep env (ident s) (length (prompts s))"
  let ?s3 = "onUpdate (PlanningStart (ident s) reqId) (onUpdate (UserTurn (ident s) reqId input)
    (s\<lparr>currentReqId := Some reqId, convo := convo s @ [(User, input)], steps := 0,
       interrupted := False\<rparr>))"
  have o: "on env (UserInput input target reqId) s = loop env ?s3"
    using h by (simp add: Let_def onUpdate_def)
  from h have ans: "answersStep env (ident s) (length (prompts s))" by simp
  have "\<exists>evs. length evs = MAX_STEPS \<and> list_all isStepEv evs \<and>
       updates (loop env ?s3) =
         updates ?s3 @ evs @ StatusEv SMaxSteps #
           (case truthy (currentReqId ?s3) of
              None \<Rightarrow> []
            | Some r \<Rightarrow> [PlanningStop (ident s) r RMaxSteps (Some maxStepsDetail)]) \<and>
       length (prompts (loop env ?s3)) = length (prompts s) + MAX_STEPS \<and>
       steps (loop env ?s3) = MAX_STEPS \<and>
       effects (loop env ?s3) = effects ?s3"
    by (rule loop_always_step [OF ans]) (simp_all add: onUpdate_def)
  then obtain evs where evs: "length evs = MAX_STEPS" "list_all isStepEv evs"
    "updates (loop env ?s3) =
         updates ?s3 @ evs @ StatusEv SMaxSteps #
           (case truthy (currentReqId ?s3) of
              None \<Rightarrow> []
            | Some r \<Rightarrow> [PlanningStop (ident s) r RMaxSteps (Some maxStepsDetail)])"
    "length (prompts (loop env ?s3)) = length (prompts s) + MAX_STEPS"
    "steps (loop env ?s3) = MAX_STEPS" "effects (loop env ?s3) = effects ?s3"
    by blast
  from evs(1,2,3) h
  show "\<exists>evs. length evs = MAX_STEPS \<and> list_all isStepEv evs \<and>
         updates (on env (UserInput input target reqId) s) =
           updates s @ UserTurn (ident s) reqId input # PlanningStart (ident s) reqId # evs @
             [StatusEv SMaxSteps, PlanningStop (ident s) reqId RMaxSteps (Some maxStepsDetail)]"
    unfolding o by (intro exI [of _ evs]) (simp add: onUpdate_def)
  from evs(4) show "length (prompts (on env (UserInput input target reqId) s)) =
        length (prompts s) + MAX_STEPS" unfolding o .
  from evs(5) show "steps (on env (UserInput input target reqId) s) = MAX_STEPS" unfolding o .
  from evs(6) show "effects (on env (UserInput input target reqId) s) = effects s"
    unfolding o by (simp add: onUpdate_def)
next
  show "MAX_STEPS = 12" by (simp add: MAX_STEPS_def)
qed

lemma answersStep_onlySteps: "answersStep onlySteps target n"
  by (simp add: answersStep_def onlySteps_def)

text \<open>
  Claim C4. A user turn whose model answers are all valid step messages should run
  exactly \<open>MAX_STEPS = 12\<close> planning rounds and then stop with a status event and a
  planning-stop with reason \<open>max-steps\<close>. The code misses the planning-stop for a user
  turn whose request id is the empty string: \<open>on\<close> keeps the empty id and announces the
  turn with it (user-turn and planning-start), the twelve rounds run with one model call
  each and the status event is emitted, and then \<open>emitPlanningStop\<close> takes the empty id
  for no request and returns without emitting.
\<close>

theorem C4_empty_request_id:
  "length (prompts (on onlySteps (UserInput ''hi'' ''agent#1'' [] ) idleAgent)) = 12 \<and>
   filter isPlanningStop (updates (on onlySteps (UserInput ''hi'' ''agent#1'' []) idleAgent)) = [] \<and>
   last (updates (on onlySteps (UserInput ''hi'' ''agent#1'' []) idleAgent)) = StatusEv SMaxSteps \<and>
   take 2 (updates (on onlySteps (UserInput ''hi'' ''agent#1'' []) idleAgent)) =
     [UserTurn ''agent#1'' [] ''hi'', PlanningStart ''agent#1'' []]"
proof -
  let ?s3 = "onUpdate (PlanningStart ''agent#1'' []) (onUpdate (UserTurn ''agent#1'' [] ''hi'')
    (idleAgent\<lparr>currentReqId := Some [], convo := convo idleAgent @ [(User, ''hi'')], steps := 0,
       interrupted := False\<rparr>))"
  have o: "on onlySteps (UserInput ''hi'' ''agent#1'' []) idleAgent = loop onlySteps ?s3"
    by (simp add: Let_def onUpdate_def idleAgent_def newAgent_def)
  have "\<exists>evs. length evs = MAX_STEPS \<and> list_all isStepEv evs \<and>
       updates (loop onlySteps ?s3) =
         updates ?s3 @ evs @ StatusEv SMaxSteps #
           (case truthy (currentReqId ?s3) of
              None \<Rightarrow> []
            | Some r \<Rightarrow> [PlanningStop ''agent#1'' r RMaxSteps (Some maxStepsDetail)]) \<and>
       length (prompts (loop onlySteps ?s3)) = 0 + MAX_STEPS \<and>
       steps (loop onlySteps ?s3) = MAX_STEPS \<and>
       effects (loop onlySteps ?s3) = effects ?s3"
    by (rule loop_always_step [OF answersStep_onlySteps])
       (simp_all add: onUpdate_def idleAgent_def newAgent_def)
  then obtain evs where evs: "list_all isStepEv evs"
    "updates (loop onlySteps ?s3) =
       [UserTurn ''agent#1'' [] ''hi'', PlanningStart ''agent#1'' []] @ evs @ [StatusEv SMaxSteps]"
    "length (prompts (loop onlySteps ?s3)) = 12"
    by (auto simp: onUpdate_def idleAgent_def newAgent_def MAX_STEPS_def)
  from evs(1) have "filter isPlanningStop evs = []"
    by (induction evs) (auto elim: isStepEv.elims)
  with evs show ?thesis unfolding o by simp
qed

subsection \<open>A round that finds the interrupted flag set\<close>





subsection \<open>Tool results\<close>

text \<open>
  Claim C10. When the agent handles a tool result addressed to it, the next entry of the
  transcript is a user entry whose content ends with the first 2000 characters of the
  payload, and the next UI event is the observation carrying those same 2000 characters,
  whatever the planner loop appends after them. The truncated payload has at most 2000
  characters, and a payload of at most 2000 characters is passed on unchanged. A tool
  result addressed to another agent changes nothing.
\<close>

theorem C10_tool_payload_truncated:
  "(target = ident s \<longrightarrow>
      prefix (convo s @
          [(User, ''TOOL('' @ tool @ '') -> '' @ (if ok then ''ok'' else ''error'') @ nl @
                  take 2000 data)])
        (convo (on env (ToolResult target tool reqId ok data) s)) \<and>
      prefix (updates s @ [Observation tool ok (take 2000 data)])
        (updates (on env (ToolResult target tool reqId ok data) s))) \<and>
   (target \<noteq> ident s \<longrightarrow> on env (ToolResult target tool reqId ok data) s = s) \<and>
   length (take 2000 data) \<le> 2000 \<and>
   (length data \<le> 2000 \<longrightarrow> take 2000 data = data)"
proof (intro conjI impI)
  assume t: "target = ident s"
  let ?u = "onUpdate (Observation tool ok (take 2000 data))
    (s\<lparr>convo := convo s @
       [(User, ''TOOL('' @ tool @ '') -> '' @ (if ok then ''ok'' else ''error'') @ nl @
          take 2000 data)]\<rparr>)"
  have o: "on env (ToolResult target tool reqId ok data) s = loop env ?u"
    using t by (simp add: Let_def)
  have e: "evolves ?u (loop env ?u)" by (rule evolves_loop_handleMessage(1))
  from evolves_frame(4) [OF e]
  show "prefix (convo s @
          [(User, ''TOOL('' @ tool @ '') -> '' @ (if ok then ''ok'' else ''error'') @ nl @
                  take 2000 data)])
        (convo (on env (ToolResult target tool reqId ok data) s))"
    unfolding o by (simp add: onUpdate_def)
  from evolves_frame(3) [OF e]
  show "prefix (updates s @ [Observation tool ok (take 2000 data)])
        (updates (on env (ToolResult target tool reqId ok data) s))"
    unfolding o by (simp add: onUpdate_def)
qed simp_all

theorem C10_tool_payload_truncated_witness:
  "''agent#1'' = ident idleAgent \<and>
   length (replicate 2500 (CHR ''x'')) = 2500 \<and>
   prefix (convo idleAgent @ [(User, ''TOOL(fs) -> ok'' @ nl @ replicate 2000 (CHR ''x''))])
     (convo (on neverValid (ToolResult ''agent#1'' ''fs'' None True (replicate 2500 (CHR ''x'')))
        idleAgent)) \<and>
   prefix [Observation ''fs'' True (replicate 2000 (CHR ''x''))]
     (updates (on neverValid (ToolResult ''agent#1'' ''fs'' None True (replicate 2500 (CHR ''x'')))
        idleAgent)) \<and>
   take 2000 ''short'' = ''short''"
proof -
  have t: "''agent#1'' = ident idleAgent" by (simp add: idleAgent_def newAgent_def)
  note T = C10_tool_payload_truncated [of "''agent#1''" idleAgent "''fs''" True
      "replicate 2500 (CHR ''x'')" neverValid None]
  note U = C10_tool_payload_truncated [of "''agent#1''" idleAgent "''fs''" True
      "''short''" neverValid None]
  have k: "take 2000 (replicate 2500 (CHR ''x'')) = replicate 2000 (CHR ''x'')" by simp
  from T t have "prefix (convo idleAgent @
          [(User, ''TOOL('' @ ''fs'' @ '') -> '' @ (if True then ''ok'' else ''error'') @ nl @
                  take 2000 (replicate 2500 (CHR ''x'')))])
        (convo (on neverValid (ToolResult ''agent#1'' ''fs'' None True (replicate 2500 (CHR ''x'')))
           idleAgent))" by blast
  then have 1: "prefix (convo idleAgent @ [(User, ''TOOL(fs) -> ok'' @ nl @ replicate 2000 (CHR ''x''))])
     (convo (on neverValid (ToolResult ''agent#1'' ''fs'' None True (replicate 2500 (CHR ''x'')))
        idleAgent))"
    unfolding k by simp
  from T t have "prefix (updates idleAgent @
      [Observation ''fs'' True (take 2000 (replicate 2500 (CHR ''x'')))])
        (updates (on neverValid (ToolResult ''agent#1'' ''fs'' None True (replicate 2500 (CHR ''x'')))
           idleAgent))" by blast
  then have 2: "prefix [Observation ''fs'' True (replicate 2000 (CHR ''x''))]
     (updates (on neverValid (ToolResult ''agent#1'' ''fs'' None True (replicate 2500 (CHR ''x'')))
        idleAgent))"
    unfolding k by (simp add: idleAgent_def newAgent_def)
  have s: "length ''short'' \<le> 2000" by simp
  from U s have 3: "take 2000 ''short'' = ''short''" by blast
  have 4: "length (replicate 2500 (CHR ''x'')) = 2500" by simp
  from t 4 1 2 3 show ?thesis by blast
qed

end
